theory Spec2Isabelle
  imports Complex_Main "HOL-Library.Extended_Nat"
begin

section \<open>Strings as the program sees them\<close>

text \<open>
  A log is a JavaScript string. It is modelled as a \<open>string\<close> whose characters are the
  UTF-16 code units below 0x100, so \<open>length\<close> is the program's \<open>.length\<close>. Code units
  from 0x100 on (among them the line terminators U+2028 and U+2029) are outside the model.
\<close>

definition LF :: char where
  "LF = CHR 0x0A"

definition CR :: char where
  "CR = CHR 0x0D"

definition DQ :: char where
  "DQ = CHR 0x22"

text \<open>The characters that \<open>.\<close> refuses: the line terminators.\<close>

definition isLineTerminator :: "char \<Rightarrow> bool" where
  "isLineTerminator c = (c = LF \<or> c = CR)"

text \<open>The characters that \<open>trim()\<close> strips and \<open>\s\<close> accepts: white space and line terminators.\<close>

definition isWhiteSpace :: "char \<Rightarrow> bool" where
  "isWhiteSpace c = (c \<in> set [CHR 0x09, CHR 0x0A, CHR 0x0B, CHR 0x0C, CHR 0x0D, CHR 0x20, CHR 0xA0])"

definition isDigit :: "char \<Rightarrow> bool" where
  "isDigit c = (c \<in> set ''0123456789'')"

definition trim :: "string \<Rightarrow> string" where
  "trim s = rev (dropWhile isWhiteSpace (rev (dropWhile isWhiteSpace s)))"

text \<open>
  Case folding of a regular expression with the \<open>i\<close> flag. Every pattern of the program
  that carries the flag is ASCII, and a character from 0x80 on never folds to an ASCII
  one, so folding the ASCII letters decides the same matches.
\<close>

definition canonicalize :: "char \<Rightarrow> char" where
  "canonicalize c =
     (case map_of (zip ''abcdefghijklmnopqrstuvwxyz'' ''ABCDEFGHIJKLMNOPQRSTUVWXYZ'') c of
        Some u \<Rightarrow> u
      | None \<Rightarrow> c)"

fun startsWith :: "string \<Rightarrow> string \<Rightarrow> bool" where
  "startsWith s [] = True"
| "startsWith [] (c # sub) = False"
| "startsWith (d # s) (c # sub) = (d = c \<and> startsWith s sub)"

text \<open>\<open>s.includes(sub)\<close>\<close>

fun includes_str :: "string \<Rightarrow> string \<Rightarrow> bool" where
  "includes_str [] sub = (sub = [])"
| "includes_str (d # s) sub = (startsWith (d # s) sub \<or> includes_str s sub)"

text \<open>\<open>s.split('\n')\<close>: always at least one piece.\<close>

fun split_lines :: "string \<Rightarrow> string list" where
  "split_lines [] = [[]]"
| "split_lines (c # s) =
     (if c = LF then [] # split_lines s
      else (case split_lines s of
              l # ls \<Rightarrow> (c # l) # ls
            | [] \<Rightarrow> [[c]]))"

text \<open>The number that a string of decimal digits writes.\<close>

definition digit_val :: "char \<Rightarrow> nat" where
  "digit_val c = length (takeWhile (\<lambda>d. d \<noteq> c) ''0123456789'')"

definition dec_value :: "string \<Rightarrow> nat" where
  "dec_value ds = foldl (\<lambda>n c. 10 * n + digit_val c) 0 ds"

text \<open>
  A number of the program is a double. What \<open>parseInt\<close> returns for a string of digits
  is a whole double that is not negative, or \<open>Infinity\<close>: an \<open>enat\<close>. \<open>to_double\<close> rounds
  a whole number to the nearest double, and to the one with the even mantissa when two
  are equally near: it is the number itself below \<open>2^53\<close>, and \<open>Infinity\<close> from
  \<open>2^1024 - 2^970\<close> on. (The language lets an implementation drop the digits after the
  20th; the engine of Node reads them all.)
\<close>

fun bit_length :: "nat \<Rightarrow> nat" where
  "bit_length n = (if n = 0 then 0 else Suc (bit_length (n div 2)))"

declare bit_length.simps [simp del]

definition to_double :: "nat \<Rightarrow> enat" where
  "to_double n =
     (if n < 9007199254740992 then enat n
      else
        (let e = bit_length n - 53; q = n div 2 ^ e; r = n mod 2 ^ e;
             q' = (if 2 ^ e < 2 * r \<or> (2 * r = 2 ^ e \<and> odd q) then q + 1 else q)
         in if 2 ^ 1024 \<le> q' * 2 ^ e then \<infinity> else enat (q' * 2 ^ e)))"

definition parseInt :: "string \<Rightarrow> enat" where
  "parseInt ds = to_double (dec_value ds)"

text \<open>
  The other numbers of the program, the average response time among them, may be
  fractions: a rational or \<open>Infinity\<close>.
\<close>

datatype number = Num rat | Infinity

definition number_of :: "enat \<Rightarrow> number" where
  "number_of x = (case x of enat n \<Rightarrow> Num (of_nat n) | \<infinity> \<Rightarrow> Infinity)"

text \<open>The decimal numeral of a number, as a template literal prints it.\<close>

definition digit_char :: "nat \<Rightarrow> char" where
  "digit_char d = ''0123456789'' ! d"

fun show_nat :: "nat \<Rightarrow> string" where
  "show_nat n = (if n < 10 then [digit_char n] else show_nat (n div 10) @ [digit_char (n mod 10)])"

declare show_nat.simps [simp del]

text \<open>
  \<open>s.indexOf('\n', from)\<close> is -1 when no line feed follows, and \<open>s.substring(a, b)\<close>
  clamps both arguments to \<open>0 .. length s\<close> and swaps them when \<open>a > b\<close>.
\<close>

fun indexOf_LF :: "string \<Rightarrow> nat \<Rightarrow> int" where
  "indexOf_LF s from =
     (case dropWhile (\<lambda>c. c \<noteq> LF) (drop from s) of
        [] \<Rightarrow> - 1
      | _ # rest \<Rightarrow> int (length s - Suc (length rest)))"

definition clamp_index :: "string \<Rightarrow> int \<Rightarrow> nat" where
  "clamp_index s i = (if i < 0 then 0 else min (nat i) (length s))"

definition substring :: "string \<Rightarrow> int \<Rightarrow> int \<Rightarrow> string" where
  "substring s a b =
     (let x = clamp_index s a; y = clamp_index s b;
          lo = min x y; hi = max x y
      in take (hi - lo) (drop lo s))"

section \<open>Regular expressions\<close>

text \<open>
  The fragment of ECMAScript regular expressions that the program's patterns use: single
  characters and character classes, the greedy quantifiers \<open>?\<close>, \<open>*\<close>, \<open>+\<close> on them,
  sequence, alternation and capturing groups.
\<close>

datatype cls = Lit char | Dot | NotQuote | Digit | Space

datatype re = Eps | One cls | Opt cls | Star cls | Plus cls
  | Seq re re | Alt re re | Cap nat re

type_synonym caps = "(nat \<times> string) list"

fun cls_ok :: "bool \<Rightarrow> cls \<Rightarrow> char \<Rightarrow> bool" where
  "cls_ok ic (Lit c) d = (if ic then canonicalize c = canonicalize d else c = d)"
| "cls_ok ic Dot d = (\<not> isLineTerminator d)"
| "cls_ok ic NotQuote d = (d \<noteq> DQ)"
| "cls_ok ic Digit d = isDigit d"
| "cls_ok ic Space d = isWhiteSpace d"

text \<open>The inputs left after a greedy \<open>*\<close>, the longest run first.\<close>

fun star_rests :: "(char \<Rightarrow> bool) \<Rightarrow> string \<Rightarrow> string list" where
  "star_rests p [] = [[]]"
| "star_rests p (d # s) = (if p d then star_rests p s @ [d # s] else [d # s])"

text \<open>
  Backtracking matching at one position: every way the expression matches a prefix of the
  input, as the rest of the input and the captures, in the order in which a backtracking
  matcher tries them. The first one is the match.
\<close>

fun run :: "bool \<Rightarrow> re \<Rightarrow> string \<Rightarrow> caps \<Rightarrow> (string \<times> caps) list" where
  "run ic Eps s cs = [(s, cs)]"
| "run ic (One k) s cs =
     (case s of [] \<Rightarrow> [] | d # r \<Rightarrow> if cls_ok ic k d then [(r, cs)] else [])"
| "run ic (Opt k) s cs =
     (case s of [] \<Rightarrow> [] | d # r \<Rightarrow> if cls_ok ic k d then [(r, cs)] else []) @ [(s, cs)]"
| "run ic (Star k) s cs = map (\<lambda>r. (r, cs)) (star_rests (cls_ok ic k) s)"
| "run ic (Plus k) s cs =
     (case s of
        [] \<Rightarrow> []
      | d # r \<Rightarrow> if cls_ok ic k d then map (\<lambda>r. (r, cs)) (star_rests (cls_ok ic k) r) else [])"
| "run ic (Seq a b) s cs = concat (map (\<lambda>(r, cs'). run ic b r cs') (run ic a s cs))"
| "run ic (Alt a b) s cs = run ic a s cs @ run ic b s cs"
| "run ic (Cap n a) s cs =
     map (\<lambda>(r, cs'). (r, (n, take (length s - length r) s) # cs')) (run ic a s cs)"

text \<open>A match at exactly this position: its length and its captures.\<close>

definition exec_at :: "bool \<Rightarrow> re \<Rightarrow> string \<Rightarrow> (nat \<times> caps) option" where
  "exec_at ic r s =
     (case run ic r s [] of
        [] \<Rightarrow> None
      | (rest, cs) # _ \<Rightarrow> Some (length s - length rest, cs))"

text \<open>
  \<open>s.match(r)\<close> for a pattern without the \<open>g\<close> flag: the leftmost position with a match,
  as (index, length, captures).
\<close>

fun search :: "bool \<Rightarrow> re \<Rightarrow> nat \<Rightarrow> string \<Rightarrow> (nat \<times> nat \<times> caps) option" where
  "search ic r i [] =
     (case exec_at ic r [] of None \<Rightarrow> None | Some (n, cs) \<Rightarrow> Some (i, n, cs))"
| "search ic r i (c # s) =
     (case exec_at ic r (c # s) of
        Some (n, cs) \<Rightarrow> Some (i, n, cs)
      | None \<Rightarrow> search ic r (Suc i) s)"

definition match_first :: "bool \<Rightarrow> re \<Rightarrow> string \<Rightarrow> (nat \<times> nat \<times> caps) option" where
  "match_first ic r s = search ic r 0 s"

text \<open>
  \<open>s.matchAll(r)\<close>, and the loop over \<open>r.exec(s)\<close>, for a pattern with the \<open>g\<close> flag: the
  next search starts where the last match ended, one further after an empty match.
  \<open>k\<close> counts the positions still covered by the last match.
\<close>

fun match_all_from :: "bool \<Rightarrow> re \<Rightarrow> nat \<Rightarrow> nat \<Rightarrow> string \<Rightarrow> (nat \<times> nat \<times> caps) list" where
  "match_all_from ic r k i [] =
     (if k = 0 then (case exec_at ic r [] of None \<Rightarrow> [] | Some (n, cs) \<Rightarrow> [(i, n, cs)])
      else [])"
| "match_all_from ic r (Suc k) i (c # s) = match_all_from ic r k (Suc i) s"
| "match_all_from ic r 0 i (c # s) =
     (case exec_at ic r (c # s) of
        None \<Rightarrow> match_all_from ic r 0 (Suc i) s
      | Some (n, cs) \<Rightarrow> (i, n, cs) # match_all_from ic r (n - 1) (Suc i) s)"

definition matchAll :: "bool \<Rightarrow> re \<Rightarrow> string \<Rightarrow> (nat \<times> nat \<times> caps) list" where
  "matchAll ic r s = match_all_from ic r 0 0 s"

text \<open>\<open>match[n]\<close>: \<open>None\<close> is JavaScript's \<open>undefined\<close>, a group that took no part.\<close>

definition group :: "nat \<Rightarrow> (nat \<times> nat \<times> caps) \<Rightarrow> string option" where
  "group n m = map_of (snd (snd m)) n"

text \<open>
  \<open>match[1]\<close> of a pattern that is a sequence with group 1 on every path (all the fixed
  patterns below): the group is always defined there.
\<close>

definition group1 :: "(nat \<times> nat \<times> caps) \<Rightarrow> string" where
  "group1 m = (case group 1 m of Some g \<Rightarrow> g | None \<Rightarrow> [])"

text \<open>A literal piece of a pattern.\<close>

definition lits :: "string \<Rightarrow> re \<Rightarrow> re" where
  "lits s r = foldr (\<lambda>c acc. Seq (One (Lit c)) acc) s r"

subsection \<open>Patterns built at run time\<close>

text \<open>
  \<open>new RegExp(src)\<close> reads its pattern from a string, and the program builds that string
  from a scenario name found in the log. The constructor either throws a \<open>SyntaxError\<close>
  or yields an expression. The parser below covers the pattern grammar up to the
  fragment above: ordinary characters, \<open>.\<close>, capturing groups, \<open>|\<close>, the greedy
  quantifiers on a single character and a backslash before a syntax character. It reads
  from left to right, as the constructor does, and answers \<open>Unmodelled\<close> at the first
  construct outside the fragment (a character class, a brace, an anchor, a quantified
  group, a lazy quantifier, \<open>(?\<close>, any other escape); an error that it meets before any such
  construct is an error of the constructor too. The other exception of the program,
  \<open>RangeError\<close>, comes from an array filled to its capacity and from a date that is
  none, further below.
\<close>

datatype js_error = SyntaxError | RangeError | Unmodelled

datatype pterm = PAtom cls | PGroup re | PQuant re

text \<open>
  A group being read: its number, its finished alternatives, and the terms of the
  alternative being read, the last one first.
\<close>

type_synonym frame = "nat \<times> re list \<times> pterm list"

definition BACKSLASH :: char where
  "BACKSLASH = CHR 0x5C"

definition isSyntaxCharacter :: "char \<Rightarrow> bool" where
  "isSyntaxCharacter c = (c \<in> set (BACKSLASH # ''^$.*+?()[]{}|''))"

fun term_re :: "pterm \<Rightarrow> re" where
  "term_re (PAtom k) = One k"
| "term_re (PGroup r) = r"
| "term_re (PQuant r) = r"

definition close_alt :: "pterm list \<Rightarrow> re" where
  "close_alt ts = foldl (\<lambda>acc t. Seq (term_re t) acc) Eps ts"

fun mk_alt :: "re list \<Rightarrow> re" where
  "mk_alt [] = Eps"
| "mk_alt [a] = a"
| "mk_alt (a # b # bs) = Alt a (mk_alt (b # bs))"

fun close_frame :: "frame \<Rightarrow> re" where
  "close_frame (n, alts, ts) = mk_alt (alts @ [close_alt ts])"

fun add_term :: "pterm \<Rightarrow> frame \<Rightarrow> frame" where
  "add_term t (n, alts, ts) = (n, alts, t # ts)"

fun next_alt :: "frame \<Rightarrow> frame" where
  "next_alt (n, alts, ts) = (n, alts @ [close_alt ts], [])"

definition quantified :: "char \<Rightarrow> cls \<Rightarrow> re" where
  "quantified q k = (if q = CHR ''*'' then Star k else if q = CHR ''+'' then Plus k else Opt k)"

text \<open>
  A quantifier with nothing before it, or right after \<open>*\<close>, \<open>+\<close> or \<open>?\<close>, is ``nothing to
  repeat''; \<open>?\<close> after a quantifier makes it lazy.
\<close>

fun quantify :: "char \<Rightarrow> frame \<Rightarrow> js_error + frame" where
  "quantify q (n, alts, []) = Inl SyntaxError"
| "quantify q (n, alts, PAtom k # ts) = Inr (n, alts, PQuant (quantified q k) # ts)"
| "quantify q (n, alts, PGroup r # ts) = Inl Unmodelled"
| "quantify q (n, alts, PQuant r # ts) = (if q = CHR ''?'' then Inl Unmodelled else Inl SyntaxError)"

text \<open>
  \<open>f\<close> is the group being read, \<open>fs\<close> the groups around it, \<open>n\<close> the number of groups
  opened so far. A \<open>)\<close> with no group open is ``unmatched'', the end of the pattern inside
  a group ``unterminated'', a backslash at the end an error as well.
\<close>

fun parse :: "frame \<Rightarrow> frame list \<Rightarrow> nat \<Rightarrow> string \<Rightarrow> js_error + re" where
  "parse f fs n [] = (if fs = [] then Inr (close_frame f) else Inl SyntaxError)"
| "parse f fs n (c # s) =
     (if c = CHR ''('' then
        (if startsWith s ''?'' then Inl Unmodelled
         else parse (Suc n, [], []) (f # fs) (Suc n) s)
      else if c = CHR '')'' then
        (case fs of
           [] \<Rightarrow> Inl SyntaxError
         | g # gs \<Rightarrow> parse (add_term (PGroup (Cap (fst f) (close_frame f))) g) gs n s)
      else if c = CHR ''|'' then parse (next_alt f) fs n s
      else if c \<in> set ''*+?'' then
        (case quantify c f of
           Inl e \<Rightarrow> Inl e
         | Inr f' \<Rightarrow> parse f' fs n s)
      else if c = BACKSLASH then
        (case s of
           [] \<Rightarrow> Inl SyntaxError
         | d # s' \<Rightarrow>
             if isSyntaxCharacter d \<or> d = CHR ''/'' then parse (add_term (PAtom (Lit d)) f) fs n s'
             else Inl Unmodelled)
      else if c = CHR ''.'' then parse (add_term (PAtom Dot) f) fs n s
      else if c \<in> set ''[{^$'' then Inl Unmodelled
      else parse (add_term (PAtom (Lit c)) f) fs n s)"

definition RegExp_new :: "string \<Rightarrow> js_error + re" where
  "RegExp_new src = parse (0, [], []) [] 0 src"

text \<open>
  \<open>s.match(new RegExp(src))\<close> on the fragment: no flag, so case matters. The runs on
  concrete logs below use it, on patterns inside the fragment.
\<close>

definition match_new :: "string \<Rightarrow> string \<Rightarrow> js_error + (nat \<times> nat \<times> caps) option" where
  "match_new src s =
     (case RegExp_new src of
        Inl e \<Rightarrow> Inl e
      | Inr r \<Rightarrow> Inr (match_first False r s))"

text \<open>
  What the platform does with \<open>s.match(new RegExp(src))\<close>, as a function of the pattern
  source and the string: it throws, or it answers a match or \<open>null\<close>. The functions that
  build patterns at run time take this operation as their parameter \<open>eng\<close>. What is
  proved of them for every \<open>eng\<close> holds of the platform's own engine, on every pattern,
  whatever its syntax.
\<close>

type_synonym engine = "string \<Rightarrow> string \<Rightarrow> js_error + (nat \<times> nat \<times> caps) option"

text \<open>
  \<open>s.match(new RegExp(a)) || s.match(new RegExp(b))\<close>: the second pattern is built only
  when the first one found nothing.
\<close>

definition match_either :: "engine \<Rightarrow> string \<Rightarrow> string \<Rightarrow> string \<Rightarrow> js_error + (nat \<times> nat \<times> caps) option" where
  "match_either eng a b s =
     (case eng a s of
        Inl e \<Rightarrow> Inl e
      | Inr (Some m) \<Rightarrow> Inr (Some m)
      | Inr None \<Rightarrow> eng b s)"

section \<open>Scenario results\<close>

datatype status = Running | Passed | Failed | Warning

text \<open>
  A scenario object; \<open>idn\<close> is its property \<open>id\<close>. A property that the program has
  not set is \<open>None\<close>. A time is what \<open>new Date()\<close> returned.
\<close>

record scenario =
  idn :: nat
  name :: string
  status :: status
  startTime :: "nat option"
  endTime :: "nat option"
  duration :: "nat option"
  steps :: "string list"
  warnings :: "string list"
  error :: "string option"

text \<open>
  The wall clock: \<open>clk k\<close> is what the \<open>k\<close>-th \<open>new Date()\<close> of a run returns. Every
  function that reads the clock takes the number of reads made so far.
\<close>

type_synonym clock = "nat \<Rightarrow> nat"

text \<open>
  The object literal that \<open>createDefaultScenarios\<close> and the reconciliation push: passed,
  both times read from the clock, the placeholder duration.
\<close>

definition passed_scenario :: "clock \<Rightarrow> nat \<Rightarrow> string \<Rightarrow> nat \<Rightarrow> scenario" where
  "passed_scenario clk i nm t =
     \<lparr>idn = i, name = nm, status = Passed, startTime = Some (clk t), endTime = Some (clk (t + 1)),
      duration = Some 5000, steps = [], warnings = [], error = None\<rparr>"

fun defaults_from :: "clock \<Rightarrow> string list \<Rightarrow> nat \<Rightarrow> nat \<Rightarrow> scenario list" where
  "defaults_from clk [] i t = []"
| "defaults_from clk (nm # nms) i t = passed_scenario clk i nm t # defaults_from clk nms (i + 1) (t + 2)"

text \<open>\<open>createDefaultScenarios\<close> of \<open>src/utils/helpers.js\<close>, which the report generator imports.\<close>

definition createDefaultScenarios :: "clock \<Rightarrow> nat \<Rightarrow> scenario list" where
  "createDefaultScenarios clk t =
     defaults_from clk [''Tab Navigation'', ''Dashboard Controls'', ''Responsiveness Test''] 1 t"

text \<open>The canonical pool of the report integration, and its \<open>createDefaultScenarios\<close>.\<close>

definition defaultScenarios :: "string list" where
  "defaultScenarios =
     [''Navigate Dashboard Tabs'', ''Test Dashboard Input Controls'',
      ''Test Dashboard Plot Interactions'', ''Test Dashboard Responsiveness'']"

definition ri_createDefaultScenarios :: "clock \<Rightarrow> nat \<Rightarrow> scenario list" where
  "ri_createDefaultScenarios clk t = defaults_from clk defaultScenarios 1 t"

text \<open>A \<open>Set\<close> of strings keeps the order of first insertion.\<close>

definition set_add :: "string \<Rightarrow> string list \<Rightarrow> string list" where
  "set_add x xs = (if x \<in> set xs then xs else xs @ [x])"

section \<open>The fixed patterns\<close>

text \<open>\<open>/Running scenario: (.*)/i\<close>\<close>

definition scenarioStartRegex :: re where
  "scenarioStartRegex = lits ''Running scenario: '' (Cap 1 (Star Dot))"

text \<open>\<open>/Scenario "?([^"]*)"? completed successfully/i\<close>\<close>

definition scenarioCompleteRegex :: re where
  "scenarioCompleteRegex =
     lits ''Scenario '' (Seq (Opt (Lit DQ)) (Seq (Cap 1 (Star NotQuote)) (Seq (Opt (Lit DQ))
       (lits '' completed successfully'' Eps))))"

text \<open>\<open>/Scenario "?([^"]*)"? failed/i\<close>\<close>

definition scenarioFailedRegex :: re where
  "scenarioFailedRegex =
     lits ''Scenario '' (Seq (Opt (Lit DQ)) (Seq (Cap 1 (Star NotQuote)) (Seq (Opt (Lit DQ))
       (lits '' failed'' Eps))))"

text \<open>\<open>/(.*) completed successfully/i\<close>\<close>

definition simpleCompleteRegex :: re where
  "simpleCompleteRegex = Seq (Cap 1 (Star Dot)) (lits '' completed successfully'' Eps)"

text \<open>\<open>/Warning: (.*)/i\<close>\<close>

definition warningRegex :: re where
  "warningRegex = lits ''Warning: '' (Cap 1 (Star Dot))"

text \<open>\<open>/Total scenarios: (\d+)/\<close>, without the \<open>i\<close> flag\<close>

definition totalScenariosRegex :: re where
  "totalScenariosRegex = lits ''Total scenarios: '' (Cap 1 (Plus Digit))"

section \<open>The scenario reconstructor of the report generator\<close>

text \<open>
  \<open>prepareScenarioResults\<close> of the report generator (in \<open>src/scenarios/shiny-scenarios.js\<close>):
  a loop over the lines of the log with the scenario in progress as its state. The
  repository has two functions of this name; this one is \<open>trg_prepareScenarioResults\<close>,
  the one of the report integration \<open>ri_prepareScenarioResults\<close>.
\<close>

record pstate =
  scenarios :: "scenario list"
  currentScenario :: "scenario option"
  scenarioIdCounter :: nat
  tick :: nat

text \<open>The loose correlation of a completion or failure line with the scenario in progress.\<close>

definition correlates :: "string \<Rightarrow> scenario \<Rightarrow> string \<Rightarrow> bool" where
  "correlates line c scenarioName =
     (includes_str scenarioName (name c) \<or> includes_str (name c) scenarioName
      \<or> includes_str line (name c))"

definition completeMatch :: "string \<Rightarrow> (nat \<times> nat \<times> caps) option" where
  "completeMatch line =
     (case match_first True scenarioCompleteRegex line of
        Some m \<Rightarrow> Some m
      | None \<Rightarrow> match_first True simpleCompleteRegex line)"

definition complete_accepted :: "string \<Rightarrow> scenario \<Rightarrow> bool" where
  "complete_accepted line c =
     (case completeMatch line of
        None \<Rightarrow> False
      | Some m \<Rightarrow> correlates line c (trim (group1 m)))"

text \<open>The failure check is reached only when no completion was accepted on the line.\<close>

definition failed_accepted :: "string \<Rightarrow> scenario \<Rightarrow> bool" where
  "failed_accepted line c =
     (\<not> complete_accepted line c \<and>
      (case match_first True scenarioFailedRegex line of
         None \<Rightarrow> False
       | Some m \<Rightarrow> correlates line c (trim (group1 m))))"

text \<open>Pushing the scenario in progress, when there is one, as it is.\<close>

definition push_current :: "pstate \<Rightarrow> scenario list" where
  "push_current st =
     (case currentScenario st of
        None \<Rightarrow> scenarios st
      | Some c \<Rightarrow> scenarios st @ [c])"

text \<open>One round of the loop over the lines.\<close>

definition step :: "clock \<Rightarrow> pstate \<Rightarrow> string \<Rightarrow> pstate" where
  "step clk st line =
     (case match_first True scenarioStartRegex line of
        Some m \<Rightarrow>
          \<lparr>scenarios = push_current st,
           currentScenario = Some
             \<lparr>idn = scenarioIdCounter st, name = trim (group1 m), status = Running,
              startTime = Some (clk (tick st)), endTime = None, duration = None,
              steps = [], warnings = [], error = None\<rparr>,
           scenarioIdCounter = scenarioIdCounter st + 1,
           tick = tick st + 1\<rparr>
      | None \<Rightarrow>
          (case currentScenario st of
             None \<Rightarrow> st
           | Some c \<Rightarrow>
               if complete_accepted line c then
                 st\<lparr>currentScenario :=
                      Some (c\<lparr>status := Passed, endTime := Some (clk (tick st)), duration := Some 5000\<rparr>),
                    tick := tick st + 1\<rparr>
               else if failed_accepted line c then
                 st\<lparr>currentScenario :=
                      Some (c\<lparr>status := Failed, error := Some ''Scenario failed'',
                              endTime := Some (clk (tick st)), duration := Some 5000\<rparr>),
                    tick := tick st + 1\<rparr>
               else
                 (case match_first True warningRegex line of
                    None \<Rightarrow> st
                  | Some m \<Rightarrow>
                      st\<lparr>currentScenario :=
                           Some (c\<lparr>warnings := warnings c @ [group1 m],
                                   status := (if status c = Running then Warning else status c)\<rparr>)\<rparr>)))"

definition run_lines :: "clock \<Rightarrow> pstate \<Rightarrow> string list \<Rightarrow> pstate" where
  "run_lines clk st ls = foldl (step clk) st ls"

text \<open>After the loop: the last scenario is pushed, resolved to passed when still running.\<close>

definition finish :: "clock \<Rightarrow> pstate \<Rightarrow> scenario list" where
  "finish clk st =
     (case currentScenario st of
        None \<Rightarrow> scenarios st
      | Some c \<Rightarrow>
          if status c = Running then
            scenarios st @ [c\<lparr>status := Passed, endTime := Some (clk (tick st)), duration := Some 5000\<rparr>]
          else scenarios st @ [c])"

definition final_tick :: "pstate \<Rightarrow> nat" where
  "final_tick st =
     (case currentScenario st of
        None \<Rightarrow> tick st
      | Some c \<Rightarrow> if status c = Running then tick st + 1 else tick st)"

definition scenario_names :: "string \<Rightarrow> string list" where
  "scenario_names testLog =
     foldl (\<lambda>names m. set_add (trim (group1 m)) names) [] (matchAll True scenarioStartRegex testLog)"

definition trg_prepareScenarioResults :: "clock \<Rightarrow> nat \<Rightarrow> string \<Rightarrow> scenario list" where
  "trg_prepareScenarioResults clk t0 testLog =
     (if testLog = [] then createDefaultScenarios clk t0
      else if length testLog < 300 then createDefaultScenarios clk t0
      else if scenario_names testLog = [] then createDefaultScenarios clk t0
      else
        (let st = run_lines clk
                    \<lparr>scenarios = [], currentScenario = None, scenarioIdCounter = 1, tick = t0\<rparr>
                    (split_lines testLog);
             result = finish clk st
         in if result = [] then createDefaultScenarios clk (final_tick st) else result))"

section \<open>The scenario preparation of the report integration\<close>

text \<open>
  \<open>prepareScenarioResults\<close> of \<open>report-integration.js\<close>: one scenario for each name found
  in the log, then the reconciliation with the declared total. Its state is the list
  \<open>scenarios\<close>, the counter \<open>scenarioIdCounter\<close> and the number of clock reads.
\<close>

type_synonym rstate = "scenario list \<times> nat \<times> nat"

definition ri_scenario_names :: "string \<Rightarrow> string list" where
  "ri_scenario_names testLog =
     foldl (\<lambda>names m. set_add (trim (group1 m)) names)
       (foldl (\<lambda>names m. set_add (trim (group1 m)) names) []
          (matchAll True scenarioStartRegex testLog))
       (matchAll True scenarioCompleteRegex testLog)"

text \<open>\<open>failedMatch[1] || 'Scenario failed'\<close>\<close>

definition failure_detail :: "(nat \<times> nat \<times> caps) \<Rightarrow> string" where
  "failure_detail m =
     (case group 1 m of
        None \<Rightarrow> ''Scenario failed''
      | Some g \<Rightarrow> if g = [] then ''Scenario failed'' else g)"

text \<open>The body of the loop over the names; building a pattern from the name may throw.\<close>

definition named_scenario :: "engine \<Rightarrow> clock \<Rightarrow> string \<Rightarrow> string \<Rightarrow> nat \<Rightarrow> nat \<Rightarrow> js_error + scenario" where
  "named_scenario eng clk testLog nm i t =
     (case match_either eng (''Scenario '' @ [DQ] @ nm @ [DQ] @ '' completed successfully'')
                        (nm @ '' completed successfully'') testLog of
        Inl e \<Rightarrow> Inl e
      | Inr isCompleted \<Rightarrow>
          (case match_either eng (''Scenario '' @ [DQ] @ nm @ [DQ] @ '' failed: (.*)'')
                             (nm @ '' failed: (.*)'') testLog of
             Inl e \<Rightarrow> Inl e
           | Inr failedMatch \<Rightarrow>
               Inr \<lparr>idn = i, name = nm,
                    status = (if failedMatch \<noteq> None then Failed
                              else if isCompleted \<noteq> None then Passed else Warning),
                    startTime = Some (clk t), endTime = Some (clk (t + 1)),
                    duration = Some 5000, steps = [], warnings = [],
                    error = map_option failure_detail failedMatch\<rparr>))"

fun names_loop :: "engine \<Rightarrow> clock \<Rightarrow> string \<Rightarrow> string list \<Rightarrow> rstate \<Rightarrow> js_error + rstate" where
  "names_loop eng clk testLog [] st = Inr st"
| "names_loop eng clk testLog (nm # nms) (scs, ctr, t) =
     (case named_scenario eng clk testLog nm ctr t of
        Inl e \<Rightarrow> Inl e
      | Inr sc \<Rightarrow> names_loop eng clk testLog nms (scs @ [sc], ctr + 1, t + 2))"

text \<open>
  The loop over the canonical pool: a name not yet known is pushed as passed, and the
  loop breaks once the expected count is reached.
\<close>

fun default_loop :: "clock \<Rightarrow> nat \<Rightarrow> string list \<Rightarrow> string list \<Rightarrow> rstate \<Rightarrow> rstate" where
  "default_loop clk totalScenarios known [] st = st"
| "default_loop clk totalScenarios known (nm # nms) (scs, ctr, t) =
     (if nm \<notin> set known then
        (if length (scs @ [passed_scenario clk ctr nm t]) \<ge> totalScenarios
         then (scs @ [passed_scenario clk ctr nm t], ctr + 1, t + 2)
         else default_loop clk totalScenarios known nms
                (scs @ [passed_scenario clk ctr nm t], ctr + 1, t + 2))
      else default_loop clk totalScenarios known nms (scs, ctr, t))"

text \<open>
  The generic entries. In the object literal the counter is incremented when \<open>id\<close> is
  evaluated and read again for the name. The loop runs until the list has the declared
  length; the model gives it all the memory that this takes.
\<close>

definition unknown_scenario :: "clock \<Rightarrow> nat \<Rightarrow> nat \<Rightarrow> scenario" where
  "unknown_scenario clk ctr t =
     passed_scenario clk ctr (''Unknown Scenario '' @ show_nat (ctr + 1)) t"

function unknown_loop :: "clock \<Rightarrow> nat \<Rightarrow> rstate \<Rightarrow> rstate" where
  "unknown_loop clk totalScenarios (scs, ctr, t) =
     (if length scs < totalScenarios
      then unknown_loop clk totalScenarios (scs @ [unknown_scenario clk ctr t], ctr + 1, t + 2)
      else (scs, ctr, t))"
  by pat_completeness auto
termination
  by (relation "measure (\<lambda>(clk, totalScenarios, scs, ctr, t). totalScenarios - length scs)") auto

declare unknown_loop.simps [simp del]

definition declaredTotal :: "string \<Rightarrow> enat option" where
  "declaredTotal testLog =
     map_option (\<lambda>m. parseInt (group1 m)) (match_first False totalScenariosRegex testLog)"

text \<open>
  An array holds at most \<open>2^32 - 1\<close> entries. With a declared total beyond that,
  \<open>Infinity\<close> included, the loop of the generic entries cannot reach the total: it ends
  in the \<open>RangeError\<close> of \<open>push\<close> on a full array, if the memory lasts that long. The
  two loops above are the loops with a total that an array can reach.
\<close>

definition max_array_length :: nat where
  "max_array_length = 4294967295"

definition reconcile :: "clock \<Rightarrow> string \<Rightarrow> rstate \<Rightarrow> js_error + rstate" where
  "reconcile clk testLog st =
     (case declaredTotal testLog of
        None \<Rightarrow> Inr st
      | Some totalScenarios \<Rightarrow>
          if enat (length (fst st)) < totalScenarios then
            (case totalScenarios of
               enat n \<Rightarrow>
                 if n \<le> max_array_length then
                   Inr (unknown_loop clk n
                          (default_loop clk n (map name (fst st)) defaultScenarios st))
                 else Inl RangeError
             | \<infinity> \<Rightarrow> Inl RangeError)
          else Inr st)"

text \<open>The scenarios recovered from the log, before the reconciliation.\<close>

definition reconstruct :: "engine \<Rightarrow> clock \<Rightarrow> nat \<Rightarrow> string \<Rightarrow> js_error + rstate" where
  "reconstruct eng clk t0 testLog =
     names_loop eng clk testLog (ri_scenario_names testLog) ([], 1, t0)"

definition ri_prepareScenarioResults :: "engine \<Rightarrow> clock \<Rightarrow> nat \<Rightarrow> string \<Rightarrow> js_error + scenario list" where
  "ri_prepareScenarioResults eng clk t0 testLog =
     (if \<not> includes_str testLog ''Scenario'' \<and> declaredTotal testLog = None
      then Inr (ri_createDefaultScenarios clk t0)
      else
        (case reconstruct eng clk t0 testLog of
           Inl e \<Rightarrow> Inl e
         | Inr st \<Rightarrow>
             (case reconcile clk testLog st of
                Inl e \<Rightarrow> Inl e
              | Inr (scs, ctr, t) \<Rightarrow>
                  if scs = [] then Inr (ri_createDefaultScenarios clk t) else Inr scs)))"

section \<open>The report generator\<close>

text \<open>
  The part of \<open>TestReportGenerator.testResults\<close> that the scenarios and the log decide.
  The environment, the run's own timing and the screenshots come from outside. The
  property \<open>scenarios\<close> of the report is \<open>report_scenarios\<close> here, and the property
  \<open>scenario\<close> of an error record is \<open>scenario_of\<close>. The property \<open>successRate\<close> of the
  summary, \<open>passed / total * 100\<close> rounded twice to a double, is left out: nothing below
  reads it.
\<close>

record summary =
  total :: nat
  passed :: nat
  failed :: nat
  warning :: nat

record error_record =
  message :: string
  timestamp :: nat
  scenario_of :: string

record metrics =
  loadTime :: enat
  interactionTime :: nat
  averageResponseTime :: number
  errors :: "error_record list"

record testResults =
  report_scenarios :: "scenario list"
  summary :: summary
  metrics :: metrics

text \<open>The state that the constructor sets up.\<close>

definition new_testResults :: testResults where
  "new_testResults =
     \<lparr>report_scenarios = [],
      summary = \<lparr>total = 0, passed = 0, failed = 0, warning = 0\<rparr>,
      metrics = \<lparr>loadTime = 0, interactionTime = 0, averageResponseTime = Num 0, errors = []\<rparr>\<rparr>"

definition count_status :: "status \<Rightarrow> summary \<Rightarrow> summary" where
  "count_status st s =
     (if st = Passed then s\<lparr>passed := passed s + 1\<rparr>
      else if st = Failed then s\<lparr>failed := failed s + 1\<rparr>
      else if st = Warning then s\<lparr>warning := warning s + 1\<rparr>
      else s)"

definition addScenario :: "testResults \<Rightarrow> scenario \<Rightarrow> testResults" where
  "addScenario r sc =
     r\<lparr>report_scenarios := report_scenarios r @ [sc],
       summary := count_status (status sc) ((summary r)\<lparr>total := total (summary r) + 1\<rparr>)\<rparr>"

text \<open>\<open>addMetrics\<close> with an object of the two properties that \<open>processTestLog\<close> passes.\<close>

definition addMetrics :: "enat \<Rightarrow> number \<Rightarrow> testResults \<Rightarrow> testResults" where
  "addMetrics lt art r = r\<lparr>metrics := (metrics r)\<lparr>loadTime := lt, averageResponseTime := art\<rparr>\<rparr>"

definition addError :: "testResults \<Rightarrow> error_record \<Rightarrow> testResults" where
  "addError r e = r\<lparr>metrics := (metrics r)\<lparr>errors := errors (metrics r) @ [e]\<rparr>\<rparr>"

text \<open>\<open>scenarios.filter(s => s.duration)\<close>: the durations that are set and not zero.\<close>

definition truthy_durations :: "scenario list \<Rightarrow> nat list" where
  "truthy_durations scs =
     filter (\<lambda>d. d \<noteq> 0) (concat (map (\<lambda>sc. case duration sc of None \<Rightarrow> [] | Some d \<Rightarrow> [d]) scs))"

text \<open>
  The sum of the durations divided by their count. The sum and the quotient are exact
  here; the program rounds each to a double, which changes nothing as long as the sum is
  below \<open>2^53\<close> and the quotient is a double itself. That is so with the placeholder
  duration of every scenario that the program builds, the only case that is used below.
\<close>

definition mean :: "nat list \<Rightarrow> rat" where
  "mean ds = of_nat (sum_list ds) / of_nat (length ds)"

text \<open>
  \<open>generateSummary\<close>: the average response time is computed from the durations only when
  the value in the metrics is falsy, that is zero.
\<close>

definition generateSummary :: "testResults \<Rightarrow> testResults" where
  "generateSummary r =
     (if averageResponseTime (metrics r) = Num 0 \<and> report_scenarios r \<noteq> [] then
        (if truthy_durations (report_scenarios r) \<noteq> [] then
           r\<lparr>metrics := (metrics r)
                \<lparr>averageResponseTime := Num (mean (truthy_durations (report_scenarios r)))\<rparr>\<rparr>
         else r)
      else r)"

section \<open>Processing a log\<close>

text \<open>\<open>/Starting test at:\s*(.+)/\<close> and \<open>/Test completed at:\s*(.+)/\<close>\<close>

definition startAtRegex :: re where
  "startAtRegex = lits ''Starting test at:'' (Seq (Star Space) (Cap 1 (Plus Dot)))"

definition completedAtRegex :: re where
  "completedAtRegex = lits ''Test completed at:'' (Seq (Star Space) (Cap 1 (Plus Dot)))"

text \<open>\<open>/Initial load time:\s*(\d+)ms/\<close> and \<open>/Average response time:\s*(\d+)ms/\<close>\<close>

definition loadTimeRegex :: re where
  "loadTimeRegex = lits ''Initial load time:'' (Seq (Star Space) (Seq (Cap 1 (Plus Digit)) (lits ''ms'' Eps)))"

definition responseTimeRegex :: re where
  "responseTimeRegex =
     lits ''Average response time:'' (Seq (Star Space) (Seq (Cap 1 (Plus Digit)) (lits ''ms'' Eps)))"

text \<open>\<open>/Error:|failed:/gi\<close>\<close>

definition errorRegex :: re where
  "errorRegex = Alt (lits ''Error:'' Eps) (lits ''failed:'' Eps)"

text \<open>
  \<open>setTiming(startTime, endTime)\<close> calls \<open>toISOString()\<close> on both dates. A date is
  \<open>new Date(text)\<close> with the text that the log gives after ``Starting test at:'' or
  ``Test completed at:'', and the clock when the log has no such line. On a text that
  the platform cannot read as a date, \<open>toISOString()\<close> throws a \<open>RangeError\<close>. Which
  texts the platform reads as dates is the parameter \<open>date_ok\<close>.
\<close>

definition date_text_ok :: "(string \<Rightarrow> bool) \<Rightarrow> re \<Rightarrow> string \<Rightarrow> bool" where
  "date_text_ok date_ok r logContent =
     (case match_first False r logContent of
        None \<Rightarrow> True
      | Some m \<Rightarrow> date_ok (group1 m))"

definition setTiming_returns :: "(string \<Rightarrow> bool) \<Rightarrow> string \<Rightarrow> bool" where
  "setTiming_returns date_ok logContent =
     (date_text_ok date_ok startAtRegex logContent \<and> date_text_ok date_ok completedAtRegex logContent)"

text \<open>
  \<open>logContent.substring(match.index, logContent.indexOf('\n', match.index))\<close>, trimmed.
\<close>

definition errorLine :: "string \<Rightarrow> nat \<Rightarrow> string" where
  "errorLine logContent i = substring logContent (int i) (indexOf_LF logContent i)"

fun error_records :: "clock \<Rightarrow> nat \<Rightarrow> string \<Rightarrow> (nat \<times> nat \<times> caps) list \<Rightarrow> error_record list" where
  "error_records clk t logContent [] = []"
| "error_records clk t logContent (m # ms) =
     \<lparr>message = trim (errorLine logContent (fst m)), timestamp = clk t, scenario_of = ''Unknown''\<rparr>
       # error_records clk (t + 1) logContent ms"

definition log_errors :: "clock \<Rightarrow> nat \<Rightarrow> string \<Rightarrow> error_record list" where
  "log_errors clk t logContent = error_records clk t logContent (matchAll True errorRegex logContent)"

definition log_loadTime :: "string \<Rightarrow> enat" where
  "log_loadTime logContent =
     (case match_first False loadTimeRegex logContent of
        Some m \<Rightarrow> parseInt (group1 m)
      | None \<Rightarrow> 3000)"

definition responseTimeMatch :: "string \<Rightarrow> enat option" where
  "responseTimeMatch logContent =
     map_option (\<lambda>m. parseInt (group1 m)) (match_first False responseTimeRegex logContent)"

definition log_averageResponseTime :: "string \<Rightarrow> enat" where
  "log_averageResponseTime logContent =
     (case responseTimeMatch logContent of
        Some v \<Rightarrow> v
      | None \<Rightarrow> 500)"

text \<open>
  \<open>processTestLog\<close> from the content of the log file on, with the file system taken to
  work: the timing is set, the scenarios are prepared and added, the metrics and the
  errors are read from the log, and \<open>saveReport\<close> writes what \<open>generateSummary\<close>
  returns. An exception on the way, from \<open>setTiming\<close> or from the scenario preparation,
  is caught and \<open>null\<close> is returned: \<open>None\<close>. \<open>t0\<close> counts the clock reads before the
  scenarios are prepared; preparing them reads the clock twice for each scenario
  returned.
\<close>

definition processTestLog :: "engine \<Rightarrow> (string \<Rightarrow> bool) \<Rightarrow> clock \<Rightarrow> nat \<Rightarrow> string \<Rightarrow> testResults option" where
  "processTestLog eng date_ok clk t0 logContent =
     (if \<not> setTiming_returns date_ok logContent then None
      else
        (case ri_prepareScenarioResults eng clk t0 logContent of
           Inl e \<Rightarrow> None
         | Inr scs \<Rightarrow>
             Some (generateSummary
               (foldl addError
                  (addMetrics (log_loadTime logContent)
                     (number_of (log_averageResponseTime logContent))
                     (foldl addScenario new_testResults scs))
                  (log_errors clk (t0 + 2 * length scs) logContent)))))"

section \<open>A clock and logs to run the program on\<close>

definition clock0 :: clock where
  "clock0 k = 1000 + k"

text \<open>A platform that reads every text as a date.\<close>

definition every_date :: "string \<Rightarrow> bool" where
  "every_date s = True"

text \<open>The log of the concrete scenario of the specification.\<close>

definition log_two_of_four :: string where
  "log_two_of_four =
     ''Running scenario: Tab Navigation'' @ [LF]
     @ ''Scenario '' @ [DQ] @ ''Tab Navigation'' @ [DQ] @ '' completed successfully'' @ [LF]
     @ ''Running scenario: Dashboard Controls'' @ [LF]
     @ ''Scenario '' @ [DQ] @ ''Dashboard Controls'' @ [DQ] @ '' failed: timeout'' @ [LF]
     @ ''Total scenarios: 4''"

text \<open>
  A log of more than 300 characters in which the first scenario never reports back: the
  runner's own lines, and no line on ``Tab Navigation'' before the next scenario starts.
\<close>

definition log_unterminated :: string where
  "log_unterminated =
     ''Starting Shiny dashboard tests...'' @ [LF]
     @ ''Target URL: https://sheetsolved.shinyapps.io/preciseSandboxAnalytics/'' @ [LF]
     @ ''Launching browser...'' @ [LF]
     @ ''Opening dashboard...'' @ [LF]
     @ ''Waiting for Shiny initialization...'' @ [LF]
     @ ''Starting test at: 2025-01-01T00:00:00.000Z'' @ [LF]
     @ ''Starting dashboard tests...'' @ [LF]
     @ ''Running scenario: Tab Navigation'' @ [LF]
     @ ''Running scenario: Dashboard Controls'' @ [LF]
     @ ''Scenario '' @ [DQ] @ ''Dashboard Controls'' @ [DQ] @ '' completed successfully'' @ [LF]"

text \<open>A log whose scenario name has an opening parenthesis.\<close>

definition log_paren :: string where
  "log_paren =
     ''Running scenario: Export (CSV'' @ [LF]
     @ ''Scenario '' @ [DQ] @ ''Export (CSV'' @ [DQ] @ '' completed successfully'' @ [LF]"

text \<open>
  A log that declares no scenario at all, as a run that failed before its first scenario
  writes it.
\<close>

definition log_total_zero :: string where
  "log_total_zero = ''Total scenarios: 0''"

text \<open>A log that declares seven scenarios and names none.\<close>

definition log_total_seven :: string where
  "log_total_seven = ''Total scenarios: 7''"

text \<open>
  An error line that ends in a blank before its line break, and one on a last line
  without a line break.
\<close>

definition log_error_blank :: string where
  "log_error_blank = ''Error: element not found '' @ [LF]"

definition log_error_last_line :: string where
  "log_error_last_line = ''Error: element not found''"

text \<open>A failure line with a detail, and the scenario in progress that it belongs to.\<close>

definition line_failed_timeout :: string where
  "line_failed_timeout = ''Scenario '' @ [DQ] @ ''Login'' @ [DQ] @ '' failed: timeout''"

definition login_running :: scenario where
  "login_running =
     \<lparr>idn = 1, name = ''Login'', status = Running, startTime = Some 1000, endTime = None,
      duration = None, steps = [], warnings = [], error = None\<rparr>"

definition state_login :: pstate where
  "state_login = \<lparr>scenarios = [], currentScenario = Some login_running, scenarioIdCounter = 2, tick = 1\<rparr>"

section \<open>What the properties speak about\<close>

text \<open>What two runs on the same log are compared by: id, name and status, not the times.\<close>

definition view :: "scenario \<Rightarrow> nat \<times> string \<times> status" where
  "view sc = (idn sc, name sc, status sc)"

text \<open>The declared total, zero when the log declares none.\<close>

definition declared_or_zero :: "string \<Rightarrow> enat" where
  "declared_or_zero testLog = (case declaredTotal testLog of None \<Rightarrow> 0 | Some n \<Rightarrow> n)"

text \<open>
  The number of scenarios recovered from the log before the reconciliation: none when the
  log has no scenario vocabulary and the reconstruction is bypassed, and no number when
  the reconstruction throws.
\<close>

definition reconstructedCount :: "engine \<Rightarrow> clock \<Rightarrow> nat \<Rightarrow> string \<Rightarrow> nat option" where
  "reconstructedCount eng clk t0 testLog =
     (if \<not> includes_str testLog ''Scenario'' \<and> declaredTotal testLog = None then Some 0
      else (case reconstruct eng clk t0 testLog of
              Inl e \<Rightarrow> None
            | Inr st \<Rightarrow> Some (length (fst st))))"

text \<open>
  The average response time as the specification words it: the marker when the log has
  one, else the mean of the scenario durations when a scenario carries one, else 500.
\<close>

definition spec_averageResponseTime :: "string \<Rightarrow> scenario list \<Rightarrow> number" where
  "spec_averageResponseTime logContent scs =
     (case responseTimeMatch logContent of
        Some v \<Rightarrow> number_of v
      | None \<Rightarrow>
          if concat (map (\<lambda>sc. case duration sc of None \<Rightarrow> [] | Some d \<Rightarrow> [d]) scs) \<noteq> []
          then Num (mean (concat (map (\<lambda>sc. case duration sc of None \<Rightarrow> [] | Some d \<Rightarrow> [d]) scs)))
          else Num 500)"

text \<open>The text from a position of the log up to the next line break.\<close>

definition up_to_line_break :: "string \<Rightarrow> nat \<Rightarrow> string" where
  "up_to_line_break logContent i = takeWhile (\<lambda>c. c \<noteq> LF) (drop i logContent)"

text \<open>
  The detail of a failure line as the specification words the line,
  \<open>Scenario NAME failed: DETAIL\<close> with optional quotes, and the error that it asks for.
\<close>

definition spec_failedRegex :: re where
  "spec_failedRegex =
     lits ''Scenario '' (Seq (Opt (Lit DQ)) (Seq (Cap 1 (Star NotQuote)) (Seq (Opt (Lit DQ))
       (lits '' failed: '' (Cap 2 (Star Dot))))))"

definition spec_failure_error :: "string \<Rightarrow> string" where
  "spec_failure_error line =
     (case match_first True spec_failedRegex line of
        None \<Rightarrow> ''Scenario failed''
      | Some m \<Rightarrow> (case group 2 m of
                     None \<Rightarrow> ''Scenario failed''
                   | Some d \<Rightarrow> if d = [] then ''Scenario failed'' else d))"

text \<open>
  Two states of the reconstructor's loop that differ in times only, and the same for the
  state of the report integration's loops.
\<close>

definition same_view :: "pstate \<Rightarrow> pstate \<Rightarrow> bool" where
  "same_view st st' =
     (map view (scenarios st) = map view (scenarios st')
      \<and> map_option view (currentScenario st) = map_option view (currentScenario st')
      \<and> scenarioIdCounter st = scenarioIdCounter st')"

definition rview :: "rstate \<Rightarrow> (nat \<times> string \<times> status) list \<times> nat" where
  "rview st = (map view (fst st), fst (snd st))"

text \<open>The scenarios of a list that are still running.\<close>

definition running_count :: "scenario list \<Rightarrow> nat" where
  "running_count scs = length (filter (\<lambda>sc. status sc = Running) scs)"

text \<open>A scenario with the placeholder duration and a final status.\<close>

definition settled :: "scenario \<Rightarrow> bool" where
  "settled sc = (duration sc = Some 5000 \<and> status sc \<noteq> Running)"

text \<open>Group \<open>n\<close> takes part in every match of the expression.\<close>

fun binds :: "nat \<Rightarrow> re \<Rightarrow> bool" where
  "binds n (Cap k a) = (k = n \<or> binds n a)"
| "binds n (Seq a b) = (binds n a \<or> binds n b)"
| "binds n (Alt a b) = (binds n a \<and> binds n b)"
| "binds n (One k) = False"
| "binds n (Opt k) = False"
| "binds n (Star k) = False"
| "binds n (Plus k) = False"
| "binds n Eps = False"

text \<open>The fixed patterns whose first group the program reads.\<close>

definition fixed_patterns :: "re list" where
  "fixed_patterns =
     [scenarioStartRegex, scenarioCompleteRegex, scenarioFailedRegex, simpleCompleteRegex,
      warningRegex, totalScenariosRegex, startAtRegex, completedAtRegex, loadTimeRegex,
      responseTimeRegex]"

text \<open>
  An occurrence of \<open>Error:\<close> or \<open>failed:\<close> in the log, in any mix of upper and lower
  case, and the positions of the occurrences in the order of the log.
\<close>

fun startsWith_ci :: "string \<Rightarrow> string \<Rightarrow> bool" where
  "startsWith_ci s [] = True"
| "startsWith_ci [] (c # p) = False"
| "startsWith_ci (d # s) (c # p) = (canonicalize d = canonicalize c \<and> startsWith_ci s p)"

definition error_marker :: "string \<Rightarrow> bool" where
  "error_marker s = (startsWith_ci s ''Error:'' \<or> startsWith_ci s ''failed:'')"

definition error_positions :: "string \<Rightarrow> nat list" where
  "error_positions logContent = filter (\<lambda>i. error_marker (drop i logContent)) [0..<length logContent]"

text \<open>The same positions, counted from \<open>i\<close> along the text.\<close>

fun markers_from :: "nat \<Rightarrow> string \<Rightarrow> nat list" where
  "markers_from i [] = []"
| "markers_from i (c # s) =
     (if error_marker (c # s) then i # markers_from (Suc i) s else markers_from (Suc i) s)"

text \<open>The characters that a pattern reads as themselves.\<close>

definition plain :: "char \<Rightarrow> bool" where
  "plain c = (c \<notin> set (BACKSLASH # ''^$.*+?()[{|''))"

section \<open>The first group of the fixed patterns\<close>

lemma run_keeps:
  "(rest, cs') \<in> set (run ic r s cs) \<Longrightarrow> map_of cs n \<noteq> None \<Longrightarrow> map_of cs' n \<noteq> None"
proof (induction r arbitrary: s cs rest cs')
  case (Seq a b)
  from Seq.prems(1) obtain r1 c1 where
    "(r1, c1) \<in> set (run ic a s cs)" and "(rest, cs') \<in> set (run ic b r1 c1)"
    by auto
  with Seq.IH Seq.prems(2) show ?case by blast
next
  case (Alt a b)
  then show ?case by auto
next
  case (Cap k a)
  from Cap.prems(1) obtain c1 where
    "(rest, c1) \<in> set (run ic a s cs)" and "cs' = (k, take (length s - length rest) s) # c1"
    by auto
  with Cap.IH Cap.prems(2) show ?case by auto
qed (auto split: list.splits if_splits)

lemma run_binds:
  "binds n r \<Longrightarrow> (rest, cs') \<in> set (run ic r s cs) \<Longrightarrow> map_of cs' n \<noteq> None"
proof (induction r arbitrary: s cs rest cs')
  case (Seq a b)
  from Seq.prems(2) obtain r1 c1 where
    a: "(r1, c1) \<in> set (run ic a s cs)" and b: "(rest, cs') \<in> set (run ic b r1 c1)"
    by auto
  show ?case
  proof (cases "binds n a")
    case True
    then have "map_of c1 n \<noteq> None" using a by (rule Seq.IH(1))
    with b show ?thesis by (rule run_keeps)
  next
    case False
    then have "binds n b" using Seq.prems(1) by simp
    then show ?thesis using b by (rule Seq.IH(2))
  qed
next
  case (Alt a b)
  then show ?case by auto
next
  case (Cap k a)
  from Cap.prems(2) obtain c1 where
    a: "(rest, c1) \<in> set (run ic a s cs)" and c: "cs' = (k, take (length s - length rest) s) # c1"
    by auto
  show ?case
  proof (cases "k = n")
    case True
    then show ?thesis using c by simp
  next
    case False
    then have "binds n a" using Cap.prems(1) by simp
    then have "map_of c1 n \<noteq> None" using a by (rule Cap.IH)
    then show ?thesis using c by simp
  qed
qed simp_all

lemma exec_at_binds:
  assumes "binds n r" and "exec_at ic r s = Some (k, cs)"
  shows "map_of cs n \<noteq> None"
proof -
  from assms(2) obtain rest tl where "run ic r s [] = (rest, cs) # tl"
    by (auto simp: exec_at_def split: list.splits)
  then have "(rest, cs) \<in> set (run ic r s [])" by simp
  with assms(1) show ?thesis by (rule run_binds)
qed

lemma search_binds:
  "binds n r \<Longrightarrow> search ic r i s = Some m \<Longrightarrow> group n m \<noteq> None"
proof (induction s arbitrary: i)
  case Nil
  then show ?case
    by (auto simp: group_def split: option.splits dest: exec_at_binds)
next
  case (Cons c s)
  then show ?case
    by (auto simp: group_def split: option.splits dest: exec_at_binds)
qed

lemma match_all_binds:
  "binds n r \<Longrightarrow> m \<in> set (match_all_from ic r k i s) \<Longrightarrow> group n m \<noteq> None"
proof (induction s arbitrary: k i)
  case Nil
  show ?case
  proof (cases "exec_at ic r []")
    case None
    with Nil show ?thesis by (cases k) simp_all
  next
    case (Some res)
    obtain len cs where res: "res = (len, cs)" by (cases res)
    from Nil.prems(2) Some res have "m = (i, len, cs)"
      by (cases k) simp_all
    moreover have "map_of cs n \<noteq> None"
      using Nil.prems(1) Some res exec_at_binds by blast
    ultimately show ?thesis by (simp add: group_def)
  qed
next
  case (Cons c s)
  show ?case
  proof (cases k)
    case 0
    show ?thesis
    proof (cases "exec_at ic r (c # s)")
      case None
      with Cons 0 show ?thesis by simp
    next
      case (Some res)
      obtain len cs where res: "res = (len, cs)" by (cases res)
      from Cons.prems(2) 0 Some res
      have "m = (i, len, cs) \<or> m \<in> set (match_all_from ic r (len - 1) (Suc i) s)"
        by simp
      then show ?thesis
      proof
        assume "m = (i, len, cs)"
        moreover have "map_of cs n \<noteq> None"
          using Cons.prems(1) Some res exec_at_binds by blast
        ultimately show ?thesis by (simp add: group_def)
      next
        assume "m \<in> set (match_all_from ic r (len - 1) (Suc i) s)"
        with Cons.prems(1) show ?thesis by (rule Cons.IH)
      qed
    qed
  next
    case (Suc k')
    with Cons show ?thesis by simp
  qed
qed

lemma binds_lits: "binds n (lits s r) = binds n r"
  by (induction s) (simp_all add: lits_def)

lemma fixed_patterns_bind: "list_all (binds 1) fixed_patterns"
  by (simp add: fixed_patterns_def scenarioStartRegex_def scenarioCompleteRegex_def
        scenarioFailedRegex_def simpleCompleteRegex_def warningRegex_def totalScenariosRegex_def
        loadTimeRegex_def responseTimeRegex_def startAtRegex_def completedAtRegex_def binds_lits)

text \<open>
  Whenever one of the fixed patterns matches, its first group is defined: \<open>match[1]\<close> is
  a string there, never \<open>undefined\<close>.
\<close>

lemma fixed_patterns_group1:
  assumes "r \<in> set fixed_patterns"
  shows "(match_first ic r s = Some m \<longrightarrow> group 1 m = Some (group1 m))
         \<and> (m \<in> set (matchAll ic r s) \<longrightarrow> group 1 m = Some (group1 m))"
proof -
  have b: "binds 1 r"
    using assms fixed_patterns_bind by (simp add: list_all_iff)
  have "group 1 m \<noteq> None" if "match_first ic r s = Some m"
    using b that unfolding match_first_def by (rule search_binds)
  moreover have "group 1 m \<noteq> None" if "m \<in> set (matchAll ic r s)"
    using b that unfolding matchAll_def by (rule match_all_binds)
  ultimately show ?thesis
    by (auto simp: group1_def)
qed

section \<open>Runs on the concrete logs\<close>

lemma length_log_unterminated: "length log_unterminated = 376"
  by (simp add: log_unterminated_def)

lemma run_unterminated:
  "trg_prepareScenarioResults clock0 0 log_unterminated =
     [\<lparr>idn = 1, name = ''Tab Navigation'', status = Running, startTime = Some 1000,
       endTime = None, duration = None, steps = [], warnings = [], error = None\<rparr>,
      \<lparr>idn = 2, name = ''Dashboard Controls'', status = Passed, startTime = Some 1001,
       endTime = Some 1002, duration = Some 5000, steps = [], warnings = [], error = None\<rparr>]"
  by code_simp

text \<open>
  How the steps of the scenario preparation compose on a log whose declared total is a
  small number.
\<close>

lemma parseInt_small:
  "dec_value ds < 9007199254740992 \<Longrightarrow> parseInt ds = enat (dec_value ds)"
  by (simp add: parseInt_def to_double_def)

lemma declaredTotal_small:
  assumes "match_first False totalScenariosRegex testLog = Some m"
    and "dec_value (group1 m) = n" and "n < 9007199254740992"
  shows "declaredTotal testLog = Some (enat n)"
  using assms by (simp add: declaredTotal_def parseInt_small)

lemma reconcile_small:
  assumes "declaredTotal testLog = Some (enat n)" and "n \<le> max_array_length"
  shows "reconcile clk testLog st =
           Inr (if length (fst st) < n
                then unknown_loop clk n (default_loop clk n (map name (fst st)) defaultScenarios st)
                else st)"
  using assms by (simp add: reconcile_def)

lemma ri_prepare_steps:
  assumes "includes_str testLog ''Scenario'' \<or> declaredTotal testLog \<noteq> None"
    and "reconstruct eng clk t0 testLog = Inr st"
    and "reconcile clk testLog st = Inr (scs, ctr, t)"
  shows "ri_prepareScenarioResults eng clk t0 testLog =
           Inr (if scs = [] then ri_createDefaultScenarios clk t else scs)"
  using assms by (auto simp: ri_prepareScenarioResults_def)

lemma run_two_of_four:
  "ri_prepareScenarioResults match_new clock0 0 log_two_of_four =
     Inr [passed_scenario clock0 1 ''Tab Navigation'' 0,
          passed_scenario clock0 2 ''Dashboard Controls'' 2\<lparr>status := Failed, error := Some ''timeout''\<rparr>,
          passed_scenario clock0 3 ''Navigate Dashboard Tabs'' 4,
          passed_scenario clock0 4 ''Test Dashboard Input Controls'' 6]"
proof -
  have m: "match_first False totalScenariosRegex log_two_of_four = Some (165, 18, [(1, ''4'')])"
    by code_simp
  have d: "declaredTotal log_two_of_four = Some (enat 4)"
    using m by (rule declaredTotal_small) (simp_all add: group1_def group_def dec_value_def digit_val_def)
  have rc: "reconstruct match_new clock0 0 log_two_of_four =
     Inr ([passed_scenario clock0 1 ''Tab Navigation'' 0,
           passed_scenario clock0 2 ''Dashboard Controls'' 2\<lparr>status := Failed, error := Some ''timeout''\<rparr>],
          3, 4)"
    by code_simp
  have lp: "unknown_loop clock0 4
       (default_loop clock0 4
          (map name [passed_scenario clock0 1 ''Tab Navigation'' 0,
             passed_scenario clock0 2 ''Dashboard Controls'' 2\<lparr>status := Failed, error := Some ''timeout''\<rparr>])
          defaultScenarios
          ([passed_scenario clock0 1 ''Tab Navigation'' 0,
            passed_scenario clock0 2 ''Dashboard Controls'' 2\<lparr>status := Failed, error := Some ''timeout''\<rparr>],
           3, 4)) =
     ([passed_scenario clock0 1 ''Tab Navigation'' 0,
       passed_scenario clock0 2 ''Dashboard Controls'' 2\<lparr>status := Failed, error := Some ''timeout''\<rparr>,
       passed_scenario clock0 3 ''Navigate Dashboard Tabs'' 4,
       passed_scenario clock0 4 ''Test Dashboard Input Controls'' 6], 5, 8)"
    by code_simp
  have rs: "reconcile clock0 log_two_of_four
       ([passed_scenario clock0 1 ''Tab Navigation'' 0,
         passed_scenario clock0 2 ''Dashboard Controls'' 2\<lparr>status := Failed, error := Some ''timeout''\<rparr>],
        3, 4) =
     Inr ([passed_scenario clock0 1 ''Tab Navigation'' 0,
       passed_scenario clock0 2 ''Dashboard Controls'' 2\<lparr>status := Failed, error := Some ''timeout''\<rparr>,
       passed_scenario clock0 3 ''Navigate Dashboard Tabs'' 4,
       passed_scenario clock0 4 ''Test Dashboard Input Controls'' 6], 5, 8)"
    unfolding reconcile_small[OF d, unfolded max_array_length_def, simplified] using lp by simp
  have "includes_str log_two_of_four ''Scenario'' \<or> declaredTotal log_two_of_four \<noteq> None"
    using d by simp
  from ri_prepare_steps[OF this rc rs] show ?thesis by simp
qed

text \<open>
  C2. On the log of the concrete scenario the report integration returns four scenarios:
  Tab Navigation, passed; Dashboard Controls, failed with the error ``timeout''; then the
  first two names of the canonical pool, passed; with the ids 1, 2, 3, 4 in this order.
\<close>

theorem two_of_four_reconciled:
  "map_sum id (map (\<lambda>sc. (idn sc, name sc, status sc, error sc)))
     (ri_prepareScenarioResults match_new clock0 0 log_two_of_four) =
   Inr [(1, ''Tab Navigation'', Passed, None),
        (2, ''Dashboard Controls'', Failed, Some ''timeout''),
        (3, ''Navigate Dashboard Tabs'', Passed, None),
        (4, ''Test Dashboard Input Controls'', Passed, None)]"
  by (simp add: run_two_of_four passed_scenario_def)

section \<open>The reconstructor of the report generator\<close>

text \<open>
  C1. The report generator's reconstructor pushes a scenario that is still open when the
  next start line arrives as it is: on this log the first entry of the result has the
  status running. Only the scenario open at the end of the log is resolved to passed.
\<close>

theorem unterminated_scenario_stays_running:
  "map view (trg_prepareScenarioResults clock0 0 log_unterminated) =
     [(1, ''Tab Navigation'', Running), (2, ''Dashboard Controls'', Passed)]"
  by (simp add: run_unterminated view_def)

lemma step_open:
  "(currentScenario st = None \<longrightarrow> scenarios st = []) \<Longrightarrow>
   (currentScenario (step clk st line) = None \<longrightarrow> scenarios (step clk st line) = [])"
  by (auto simp: step_def split: option.splits)

lemma run_lines_open:
  "(currentScenario st = None \<longrightarrow> scenarios st = []) \<Longrightarrow>
   (currentScenario (run_lines clk st ls) = None \<longrightarrow> scenarios (run_lines clk st ls) = [])"
  unfolding run_lines_def
proof (induction ls arbitrary: st)
  case Nil
  then show ?case by simp
next
  case (Cons l ls)
  from step_open[OF Cons.prems] have "currentScenario (step clk st l) = None \<longrightarrow> scenarios (step clk st l) = []" .
  from Cons.IH[OF this] show ?case by simp
qed

lemma finish_last:
  assumes "currentScenario st = None \<longrightarrow> scenarios st = []" and "finish clk st \<noteq> []"
  shows "status (last (finish clk st)) \<noteq> Running"
proof (cases "currentScenario st")
  case None
  with assms show ?thesis by (simp add: finish_def)
next
  case (Some c)
  then show ?thesis by (simp add: finish_def)
qed

lemma defaults_from_last:
  "nms \<noteq> [] \<Longrightarrow> status (last (defaults_from clk nms i t)) = Passed"
proof (induction nms arbitrary: i t)
  case Nil
  then show ?case by simp
next
  case (Cons nm nms)
  then show ?case
    by (cases nms) (simp_all add: passed_scenario_def)
qed

text \<open>
  The end of the log is handled as the specification says: the result is never empty and
  its last entry is never running. A running entry can only be one that a later start
  line pushed.
\<close>

lemma last_entry_resolved:
  "trg_prepareScenarioResults clk t0 testLog \<noteq> []
   \<and> status (last (trg_prepareScenarioResults clk t0 testLog)) \<noteq> Running"
proof -
  let ?st = "run_lines clk \<lparr>scenarios = [], currentScenario = None, scenarioIdCounter = 1, tick = t0\<rparr>
               (split_lines testLog)"
  have d: "createDefaultScenarios clk u \<noteq> [] \<and> status (last (createDefaultScenarios clk u)) \<noteq> Running" for u
    using defaults_from_last[of "[''Tab Navigation'', ''Dashboard Controls'', ''Responsiveness Test'']" clk 1 u]
    by (simp add: createDefaultScenarios_def del: defaults_from.simps) simp
  have o: "currentScenario ?st = None \<longrightarrow> scenarios ?st = []"
    by (rule run_lines_open) simp
  have f: "finish clk ?st \<noteq> [] \<Longrightarrow> status (last (finish clk ?st)) \<noteq> Running"
    using o by (rule finish_last)
  show ?thesis
    using d f by (simp add: trg_prepareScenarioResults_def Let_def)
qed

text \<open>
  What \<open>addScenario\<close> keeps: the total counts every scenario added, and the three classes
  count all of them but the running ones.
\<close>

lemma addScenario_counts:
  "total (summary (addScenario r sc)) = total (summary r) + 1
   \<and> passed (summary (addScenario r sc)) + failed (summary (addScenario r sc))
       + warning (summary (addScenario r sc)) + (if status sc = Running then 1 else 0)
     = passed (summary r) + failed (summary r) + warning (summary r) + 1"
  by (cases "status sc") (simp_all add: addScenario_def count_status_def Let_def)

lemma summary_counts:
  "total (summary (foldl addScenario r scs)) = total (summary r) + length scs
   \<and> passed (summary (foldl addScenario r scs)) + failed (summary (foldl addScenario r scs))
       + warning (summary (foldl addScenario r scs)) + running_count scs
     = passed (summary r) + failed (summary r) + warning (summary r) + length scs"
proof (induction scs arbitrary: r)
  case Nil
  then show ?case by (simp add: running_count_def)
next
  case (Cons sc scs)
  from Cons.IH[of "addScenario r sc"] addScenario_counts[of r sc]
  show ?case by (auto simp: running_count_def)
qed

lemma report_summary_counts:
  "total (summary (foldl addScenario new_testResults scs))
     = passed (summary (foldl addScenario new_testResults scs))
       + failed (summary (foldl addScenario new_testResults scs))
       + warning (summary (foldl addScenario new_testResults scs))
       + running_count scs"
  using summary_counts[of new_testResults scs] by (simp add: new_testResults_def)

text \<open>
  C6, as the specification states it: the error is the detail of the failure line when
  there is one. In the report generator's reconstructor the failure line of ``Login''
  carries the detail ``timeout'', is accepted, and the error is the generic string.
\<close>

theorem failed_event_detail_counterexample:
  "failed_accepted line_failed_timeout login_running
   \<and> map_option error (currentScenario (step clock0 state_login line_failed_timeout))
       = Some (Some ''Scenario failed'')
   \<and> spec_failure_error line_failed_timeout = ''timeout''"
  by code_simp

text \<open>
  C6, amended. In the report generator's reconstructor a failure line accepted for the
  scenario in progress sets its status to failed, its duration to 5000 and its error to
  the generic string ``Scenario failed'', whatever the line says after ``failed''. In
  the report integration, with whatever engine for the patterns built from the name, a
  scenario whose failure pattern matched has the status failed, the duration 5000 and as
  error the first group of the match when that is a string and not the empty one, and
  the generic string when the group is undefined or empty.
\<close>

theorem failed_event_result:
  "(match_first True scenarioStartRegex line = None \<and> currentScenario st = Some c
      \<and> failed_accepted line c \<longrightarrow>
      (\<exists>c'. currentScenario (step clk st line) = Some c' \<and> idn c' = idn c \<and> name c' = name c
            \<and> status c' = Failed \<and> duration c' = Some 5000 \<and> error c' = Some ''Scenario failed''))
   \<and> (named_scenario eng clk testLog nm i t = Inr sc
      \<and> match_either eng (''Scenario '' @ [DQ] @ nm @ [DQ] @ '' failed: (.*)'')
                      (nm @ '' failed: (.*)'') testLog = Inr (Some m) \<longrightarrow>
      status sc = Failed \<and> duration sc = Some 5000
      \<and> error sc = Some (case group 1 m of
                            None \<Rightarrow> ''Scenario failed''
                          | Some g \<Rightarrow> if g = [] then ''Scenario failed'' else g))"
proof -
  have A: "\<exists>c'. currentScenario (step clk st line) = Some c' \<and> idn c' = idn c \<and> name c' = name c
            \<and> status c' = Failed \<and> duration c' = Some 5000 \<and> error c' = Some ''Scenario failed''"
    if "match_first True scenarioStartRegex line = None" and "currentScenario st = Some c"
      and "failed_accepted line c"
  proof -
    from that(3) have "\<not> complete_accepted line c"
      by (simp add: failed_accepted_def)
    with that show ?thesis
      by (simp add: step_def)
  qed
  have B: "status sc = Failed \<and> duration sc = Some 5000
           \<and> error sc = Some (case group 1 m of
                                 None \<Rightarrow> ''Scenario failed''
                               | Some g \<Rightarrow> if g = [] then ''Scenario failed'' else g)"
    if "named_scenario eng clk testLog nm i t = Inr sc"
      and "match_either eng (''Scenario '' @ [DQ] @ nm @ [DQ] @ '' failed: (.*)'')
                        (nm @ '' failed: (.*)'') testLog = Inr (Some m)"
  proof (cases m)
    case (fields k n cs)
    with that show ?thesis
      by (auto simp: named_scenario_def failure_detail_def split: sum.splits)
  qed
  from A B show ?thesis by blast
qed

theorem failed_event_result_witness:
  "match_first True scenarioStartRegex line_failed_timeout = None
   \<and> currentScenario state_login = Some login_running
   \<and> failed_accepted line_failed_timeout login_running
   \<and> (\<exists>c'. currentScenario (step clock0 state_login line_failed_timeout) = Some c'
          \<and> status c' = Failed \<and> duration c' = Some 5000 \<and> error c' = Some ''Scenario failed'')
   \<and> named_scenario match_new clock0 log_two_of_four ''Dashboard Controls'' 2 2
       = Inr (passed_scenario clock0 2 ''Dashboard Controls'' 2\<lparr>status := Failed, error := Some ''timeout''\<rparr>)
   \<and> match_either match_new (''Scenario '' @ [DQ] @ ''Dashboard Controls'' @ [DQ] @ '' failed: (.*)'')
                   (''Dashboard Controls'' @ '' failed: (.*)'') log_two_of_four
       = Inr (Some (119, 45, [(1, ''timeout'')]))
   \<and> group 1 (119, 45, [(1, ''timeout'')]) = Some ''timeout''"
proof -
  have h1: "match_first True scenarioStartRegex line_failed_timeout = None"
    by code_simp
  have h2: "currentScenario state_login = Some login_running"
    by (simp add: state_login_def)
  have h3: "failed_accepted line_failed_timeout login_running"
    by code_simp
  have h4: "named_scenario match_new clock0 log_two_of_four ''Dashboard Controls'' 2 2
       = Inr (passed_scenario clock0 2 ''Dashboard Controls'' 2\<lparr>status := Failed, error := Some ''timeout''\<rparr>)"
    by code_simp
  have h5: "match_either match_new (''Scenario '' @ [DQ] @ ''Dashboard Controls'' @ [DQ] @ '' failed: (.*)'')
                   (''Dashboard Controls'' @ '' failed: (.*)'') log_two_of_four
       = Inr (Some (119, 45, [(1, ''timeout'')]))"
    by code_simp
  have h6: "group 1 (119, 45, [(1, ''timeout'')]) = Some ''timeout''"
    by (simp add: group_def)
  from failed_event_result[of line_failed_timeout state_login login_running clock0
         match_new log_two_of_four "''Dashboard Controls''" 2 2
         "passed_scenario clock0 2 ''Dashboard Controls'' 2\<lparr>status := Failed, error := Some ''timeout''\<rparr>"
         "(119, 45, [(1, ''timeout'')])"]
       h1 h2 h3 h4 h5 h6
  show ?thesis by auto
qed

section \<open>The scenario preparation of the report integration throws\<close>

text \<open>
  C5. A scenario name goes into a pattern unescaped: with an opening parenthesis in the
  name the constructor throws, and the scenario preparation throws with it.
\<close>

theorem paren_name_throws:
  "ri_prepareScenarioResults match_new clock0 0 log_paren = Inl SyntaxError"
proof -
  have "includes_str log_paren ''Scenario''"
    by code_simp
  moreover have "reconstruct match_new clock0 0 log_paren = Inl SyntaxError"
    by code_simp
  ultimately show ?thesis
    by (simp add: ri_prepareScenarioResults_def)
qed

lemma parse_plain_char:
  "plain c \<Longrightarrow> parse f fs n (c # s) = parse (add_term (PAtom (Lit c)) f) fs n s"
  by (simp add: plain_def BACKSLASH_def)

lemma parse_plain:
  "list_all plain p \<Longrightarrow>
   parse f fs n (p @ rest) = parse (foldl (\<lambda>g c. add_term (PAtom (Lit c)) g) f p) fs n rest"
proof (induction p arbitrary: f)
  case Nil
  then show ?case by simp
next
  case (Cons c p)
  then have "plain c" and "list_all plain p" by simp_all
  then show ?case
    using Cons.IH by (simp add: parse_plain_char del: parse.simps)
qed

lemma parse_plain_returns:
  assumes "list_all plain p"
  shows "\<exists>r. parse f [] n p = Inr r"
  using parse_plain[OF assms, of f "[]" n "[]"] by simp

lemma parse_detail_group_returns: "\<exists>r. parse f [] n ''(.*)'' = Inr r"
  by (cases f) (simp add: BACKSLASH_def quantified_def)

lemma parse_plain_detail_returns:
  assumes "list_all plain p"
  shows "\<exists>r. parse f [] n (p @ ''(.*)'') = Inr r"
  unfolding parse_plain[OF assms] by (rule parse_detail_group_returns)

lemma plain_fixed:
  "plain DQ" "list_all plain ''Scenario ''" "list_all plain '' completed successfully''"
  "list_all plain '' failed: ''"
  by (simp_all add: plain_def BACKSLASH_def DQ_def)

lemma RegExp_new_plain:
  assumes "list_all plain nm"
  shows "\<exists>r. RegExp_new (''Scenario '' @ [DQ] @ nm @ [DQ] @ '' completed successfully'') = Inr r"
    and "\<exists>r. RegExp_new (nm @ '' completed successfully'') = Inr r"
    and "\<exists>r. RegExp_new (''Scenario '' @ [DQ] @ nm @ [DQ] @ '' failed: (.*)'') = Inr r"
    and "\<exists>r. RegExp_new (nm @ '' failed: (.*)'') = Inr r"
proof -
  have a: "list_all plain (''Scenario '' @ [DQ] @ nm @ [DQ] @ '' completed successfully'')"
    using assms plain_fixed by simp
  have b: "list_all plain (nm @ '' completed successfully'')"
    using assms plain_fixed by simp
  have c: "list_all plain (''Scenario '' @ [DQ] @ nm @ [DQ] @ '' failed: '')"
    using assms plain_fixed by simp
  have d: "list_all plain (nm @ '' failed: '')"
    using assms plain_fixed by simp
  show "\<exists>r. RegExp_new (''Scenario '' @ [DQ] @ nm @ [DQ] @ '' completed successfully'') = Inr r"
    unfolding RegExp_new_def using a by (rule parse_plain_returns)
  show "\<exists>r. RegExp_new (nm @ '' completed successfully'') = Inr r"
    unfolding RegExp_new_def using b by (rule parse_plain_returns)
  have "\<exists>r. RegExp_new ((''Scenario '' @ [DQ] @ nm @ [DQ] @ '' failed: '') @ ''(.*)'') = Inr r"
    unfolding RegExp_new_def using c by (rule parse_plain_detail_returns)
  then show "\<exists>r. RegExp_new (''Scenario '' @ [DQ] @ nm @ [DQ] @ '' failed: (.*)'') = Inr r"
    by simp
  have "\<exists>r. RegExp_new ((nm @ '' failed: '') @ ''(.*)'') = Inr r"
    unfolding RegExp_new_def using d by (rule parse_plain_detail_returns)
  then show "\<exists>r. RegExp_new (nm @ '' failed: (.*)'') = Inr r"
    by simp
qed

lemma match_either_returns:
  assumes "\<exists>r. RegExp_new a = Inr r" and "\<exists>r. RegExp_new b = Inr r"
  shows "\<exists>m. match_either match_new a b s = Inr m"
  using assms by (auto simp: match_either_def match_new_def split: option.splits)

lemma named_scenario_plain:
  assumes "list_all plain nm"
  shows "\<exists>sc. named_scenario match_new clk testLog nm i t = Inr sc"
proof -
  obtain m1 where m1: "match_either match_new (''Scenario '' @ [DQ] @ nm @ [DQ] @ '' completed successfully'')
                          (nm @ '' completed successfully'') testLog = Inr m1"
    using match_either_returns[OF RegExp_new_plain(1)[OF assms] RegExp_new_plain(2)[OF assms]]
    by blast
  obtain m2 where m2: "match_either match_new (''Scenario '' @ [DQ] @ nm @ [DQ] @ '' failed: (.*)'')
                          (nm @ '' failed: (.*)'') testLog = Inr m2"
    using match_either_returns[OF RegExp_new_plain(3)[OF assms] RegExp_new_plain(4)[OF assms]]
    by blast
  show ?thesis
    unfolding named_scenario_def m1 m2 by simp
qed

lemma names_loop_plain:
  "list_all (list_all plain) nms \<Longrightarrow> \<exists>st'. names_loop match_new clk testLog nms st = Inr st'"
proof (induction nms arbitrary: st)
  case Nil
  show ?case by (cases st) auto
next
  case (Cons nm nms)
  obtain scs ctr t where st: "st = (scs, ctr, t)" by (cases st)
  from Cons.prems have "list_all plain nm" and r: "list_all (list_all plain) nms" by simp_all
  then obtain sc where "named_scenario match_new clk testLog nm ctr t = Inr sc"
    using named_scenario_plain by blast
  then show ?case
    using Cons.IH[OF r] by (simp add: st)
qed

lemma reconcile_returns:
  assumes "declared_or_zero testLog \<le> enat max_array_length"
  shows "\<not> isl (reconcile clk testLog st)"
proof (cases "declaredTotal testLog")
  case None
  then show ?thesis by (simp add: reconcile_def)
next
  case (Some total)
  with assms obtain n where "total = enat n" and "n \<le> max_array_length"
    by (cases total) (simp_all add: declared_or_zero_def)
  with Some show ?thesis by (simp add: reconcile_def)
qed

text \<open>
  With the engine of the fragment, the scenario preparation returns a list whenever no
  scenario name of the log has a character that a pattern reads as syntax and the
  declared total is one that an array can reach: the exception of C5 comes from the
  names.
\<close>

lemma plain_names_return:
  assumes "list_all (list_all plain) (ri_scenario_names testLog)"
    and "declared_or_zero testLog \<le> enat max_array_length"
  shows "\<exists>out. ri_prepareScenarioResults match_new clk t0 testLog = Inr out"
proof -
  obtain st where st: "reconstruct match_new clk t0 testLog = Inr st"
    unfolding reconstruct_def using names_loop_plain[OF assms(1)] by blast
  obtain st' where "reconcile clk testLog st = Inr st'"
    using reconcile_returns[OF assms(2), of clk st] by (cases "reconcile clk testLog st") simp_all
  with st show ?thesis
    by (auto simp: ri_prepareScenarioResults_def split: prod.splits)
qed

section \<open>The reconciliation\<close>

lemma dec_value_snoc: "dec_value (ds @ [c]) = 10 * dec_value ds + digit_val c"
  by (simp add: dec_value_def)

lemma digit_val_digit_char: "d < 10 \<Longrightarrow> digit_val (digit_char d) = d"
proof -
  assume "d < 10"
  then have "d \<in> {0, 1, 2, 3, 4, 5, 6, 7, 8, 9}" by auto
  then show ?thesis
    by (auto simp: digit_val_def digit_char_def)
qed

lemma dec_value_show_nat: "dec_value (show_nat n) = n"
proof (induction n rule: show_nat.induct)
  case (1 n)
  show ?case
  proof (cases "n < 10")
    case True
    then show ?thesis
      by (subst show_nat.simps) (simp add: dec_value_def digit_val_digit_char)
  next
    case False
    then have "dec_value (show_nat (n div 10)) = n div 10" using 1 by simp
    with False show ?thesis
      by (subst show_nat.simps) (simp add: dec_value_snoc digit_val_digit_char)
  qed
qed

lemma show_nat_inj: "show_nat a = show_nat b \<Longrightarrow> a = b"
  by (metis dec_value_show_nat)

lemma unknown_loop_appends:
  "\<exists>ext. fst (unknown_loop clk n (scs, ctr, t)) = scs @ ext
      \<and> length ext = n - length scs
      \<and> (\<forall>sc\<in>set ext. name sc = ''Unknown Scenario '' @ show_nat (idn sc + 1))"
proof (induction clk n "(scs, ctr, t)" arbitrary: scs ctr t rule: unknown_loop.induct)
  case (1 clk n scs ctr t)
  show ?case
  proof (cases "length scs < n")
    case True
    from 1[OF True] obtain ext where
      e: "fst (unknown_loop clk n (scs @ [unknown_scenario clk ctr t], ctr + 1, t + 2))
            = (scs @ [unknown_scenario clk ctr t]) @ ext"
      and l: "length ext = n - length (scs @ [unknown_scenario clk ctr t])"
      and p: "\<forall>sc\<in>set ext. name sc = ''Unknown Scenario '' @ show_nat (idn sc + 1)"
      by blast
    have u: "name (unknown_scenario clk ctr t)
               = ''Unknown Scenario '' @ show_nat (idn (unknown_scenario clk ctr t) + 1)"
      by (simp add: unknown_scenario_def passed_scenario_def)
    have "fst (unknown_loop clk n (scs, ctr, t)) = scs @ (unknown_scenario clk ctr t # ext)"
      using True e by (subst unknown_loop.simps) simp
    moreover have "length (unknown_scenario clk ctr t # ext) = n - length scs"
      using True l by simp
    moreover have "\<forall>sc\<in>set (unknown_scenario clk ctr t # ext).
                     name sc = ''Unknown Scenario '' @ show_nat (idn sc + 1)"
      using u p by simp
    ultimately show ?thesis by blast
  next
    case False
    then show ?thesis
      by (subst unknown_loop.simps) simp
  qed
qed

lemma default_loop_length:
  "length scs < n \<Longrightarrow> length (fst (default_loop clk n known pool (scs, ctr, t))) \<le> n"
  by (induction pool arbitrary: scs ctr t) auto

lemma unknown_loop_length:
  "length (fst (unknown_loop clk n st)) = max n (length (fst st))"
proof -
  obtain scs ctr t where st: "st = (scs, ctr, t)" by (cases st)
  from unknown_loop_appends[of clk n scs ctr t] show ?thesis
    unfolding st by auto
qed

lemma reconcile_length:
  assumes "reconcile clk testLog st = Inr st'"
  shows "enat (length (fst st')) = max (declared_or_zero testLog) (enat (length (fst st)))"
proof (cases "declaredTotal testLog")
  case None
  then show ?thesis using assms by (simp add: reconcile_def declared_or_zero_def)
next
  case (Some total)
  obtain scs ctr t where st: "st = (scs, ctr, t)" by (cases st)
  show ?thesis
  proof (cases "enat (length scs) < total")
    case True
    with assms Some obtain n where n: "total = enat n"
      and st': "st' = unknown_loop clk n (default_loop clk n (map name scs) defaultScenarios (scs, ctr, t))"
      by (cases total) (auto simp: reconcile_def st split: if_splits)
    from True n have "length scs < n" by simp
    then have "length (fst (default_loop clk n (map name scs) defaultScenarios (scs, ctr, t))) \<le> n"
      by (rule default_loop_length)
    then have "length (fst st') = n"
      by (simp add: st' unknown_loop_length)
    with \<open>length scs < n\<close> show ?thesis
      using Some n by (simp add: declared_or_zero_def st max_def)
  next
    case False
    then have "st' = st"
      using assms Some by (simp add: reconcile_def st)
    with False show ?thesis
      using Some by (auto simp: declared_or_zero_def st max_def)
  qed
qed

lemma names_defaults_from: "map name (defaults_from clk nms i t) = nms"
  by (induction nms arbitrary: i t) (simp_all add: passed_scenario_def)

lemma view_createDefaultScenarios:
  "map view (ri_createDefaultScenarios clk t) =
     [(1, ''Navigate Dashboard Tabs'', Passed), (2, ''Test Dashboard Input Controls'', Passed),
      (3, ''Test Dashboard Plot Interactions'', Passed), (4, ''Test Dashboard Responsiveness'', Passed)]"
  by (simp add: ri_createDefaultScenarios_def defaultScenarios_def passed_scenario_def view_def)

text \<open>
  C4, as the specification states it: the reconciliation returns at most
  \<open>max(declaredTotal, reconstructedCount)\<close> entries. On a log that declares zero
  scenarios and names none, both numbers are zero and four scenarios are returned.
\<close>

theorem reconciliation_bound_counterexample:
  "map_sum id length (ri_prepareScenarioResults match_new clock0 0 log_total_zero) = Inr 4
   \<and> declaredTotal log_total_zero = Some 0
   \<and> reconstructedCount match_new clock0 0 log_total_zero = Some 0
   \<and> \<not> (4::nat) \<le> max 0 0"
proof -
  have m: "match_first False totalScenariosRegex log_total_zero = Some (0, 18, [(1, ''0'')])"
    by code_simp
  have d: "declaredTotal log_total_zero = Some (enat 0)"
    using m by (rule declaredTotal_small) (simp_all add: group1_def group_def dec_value_def digit_val_def)
  have rc: "reconstruct match_new clock0 0 log_total_zero = Inr ([], 1, 0)"
    by code_simp
  have rs: "reconcile clock0 log_total_zero ([], 1, 0) = Inr ([], 1, 0)"
    using reconcile_small[OF d, of clock0 "([], 1, 0)"] by (simp add: max_array_length_def)
  have "includes_str log_total_zero ''Scenario'' \<or> declaredTotal log_total_zero \<noteq> None"
    using d by simp
  from ri_prepare_steps[OF this rc rs]
  have "ri_prepareScenarioResults match_new clock0 0 log_total_zero = Inr (ri_createDefaultScenarios clock0 0)"
    by simp
  moreover have "length (ri_createDefaultScenarios clock0 0) = 4"
    by (simp add: ri_createDefaultScenarios_def defaultScenarios_def)
  moreover have "reconstructedCount match_new clock0 0 log_total_zero = Some 0"
    using d rc by (simp add: reconstructedCount_def)
  ultimately show ?thesis
    using d by (simp add: zero_enat_def)
qed

text \<open>
  C4, amended. Whenever the scenario preparation returns, with whatever engine for the
  patterns built from the names, the list is not empty; its length is the larger of the
  declared total and the number of reconstructed scenarios when that number is
  positive; and when both are zero or absent the list is the canonical default set, the
  four names of the pool with the ids 1 to 4, each passed.
\<close>

theorem reconciliation_count:
  assumes "ri_prepareScenarioResults eng clk t0 testLog = Inr out"
  shows "out \<noteq> [] \<and>
         (\<exists>r. reconstructedCount eng clk t0 testLog = Some r \<and>
              (if max (declared_or_zero testLog) (enat r) = 0
               then (\<exists>t. out = ri_createDefaultScenarios clk t)
                    \<and> map view out =
                        [(1, ''Navigate Dashboard Tabs'', Passed),
                         (2, ''Test Dashboard Input Controls'', Passed),
                         (3, ''Test Dashboard Plot Interactions'', Passed),
                         (4, ''Test Dashboard Responsiveness'', Passed)]
               else enat (length out) = max (declared_or_zero testLog) (enat r)))"
proof (cases "\<not> includes_str testLog ''Scenario'' \<and> declaredTotal testLog = None")
  case True
  then have out: "out = ri_createDefaultScenarios clk t0"
    using assms by (simp add: ri_prepareScenarioResults_def)
  then have "out \<noteq> []"
    by (simp add: ri_createDefaultScenarios_def defaultScenarios_def)
  moreover have "reconstructedCount eng clk t0 testLog = Some 0"
    using True by (simp add: reconstructedCount_def)
  moreover have "max (declared_or_zero testLog) (enat 0) = 0"
    using True by (simp add: declared_or_zero_def zero_enat_def)
  moreover have "\<exists>t. out = ri_createDefaultScenarios clk t"
    using out by blast
  ultimately show ?thesis
    using view_createDefaultScenarios[of clk t0] out by simp
next
  case False
  then obtain st where rc: "reconstruct eng clk t0 testLog = Inr st"
    using assms by (auto simp: ri_prepareScenarioResults_def split: sum.splits)
  from False rc obtain st' where rs: "reconcile clk testLog st = Inr st'"
    using assms by (auto simp: ri_prepareScenarioResults_def split: sum.splits)
  obtain scs ctr t where st': "st' = (scs, ctr, t)" by (cases st')
  have len: "enat (length scs) = max (declared_or_zero testLog) (enat (length (fst st)))"
    using reconcile_length[OF rs] st' by simp
  have out: "out = (if scs = [] then ri_createDefaultScenarios clk t else scs)"
    using assms False rc rs st' by (auto simp: ri_prepareScenarioResults_def)
  have cnt: "reconstructedCount eng clk t0 testLog = Some (length (fst st))"
    using False rc by (auto simp: reconstructedCount_def)
  show ?thesis
  proof (cases "scs = []")
    case True
    then have o: "out = ri_createDefaultScenarios clk t"
      using out by simp
    then have "out \<noteq> []"
      by (simp add: ri_createDefaultScenarios_def defaultScenarios_def)
    moreover have "max (declared_or_zero testLog) (enat (length (fst st))) = 0"
      using len True by (simp add: zero_enat_def)
    moreover have "\<exists>t. out = ri_createDefaultScenarios clk t"
      using o by blast
    ultimately show ?thesis
      using view_createDefaultScenarios[of clk t] o cnt by simp
  next
    case False
    then have "out = scs" using out by simp
    moreover from False have "enat (length scs) \<noteq> 0"
      by (simp add: zero_enat_def)
    ultimately show ?thesis
      using False cnt len by simp
  qed
qed

theorem reconciliation_count_witness:
  "ri_prepareScenarioResults match_new clock0 0 log_total_seven
     = Inr (ri_createDefaultScenarios clock0 0
            @ [unknown_scenario clock0 5 8, unknown_scenario clock0 6 10, unknown_scenario clock0 7 12])
   \<and> declared_or_zero log_total_seven = 7
   \<and> reconstructedCount match_new clock0 0 log_total_seven = Some 0
   \<and> enat (length (ri_createDefaultScenarios clock0 0
            @ [unknown_scenario clock0 5 8, unknown_scenario clock0 6 10, unknown_scenario clock0 7 12]))
       = max (declared_or_zero log_total_seven) (enat 0)"
proof -
  have m: "match_first False totalScenariosRegex log_total_seven = Some (0, 18, [(1, ''7'')])"
    by code_simp
  have dt: "declaredTotal log_total_seven = Some (enat 7)"
    using m by (rule declaredTotal_small) (simp_all add: group1_def group_def dec_value_def digit_val_def)
  have rc: "reconstruct match_new clock0 0 log_total_seven = Inr ([], 1, 0)"
    by code_simp
  have lp: "unknown_loop clock0 7 (default_loop clock0 7 [] defaultScenarios ([], 1, 0)) =
     (ri_createDefaultScenarios clock0 0
        @ [unknown_scenario clock0 5 8, unknown_scenario clock0 6 10, unknown_scenario clock0 7 12], 8, 14)"
    by code_simp
  have rs: "reconcile clock0 log_total_seven ([], 1, 0) =
     Inr (ri_createDefaultScenarios clock0 0
        @ [unknown_scenario clock0 5 8, unknown_scenario clock0 6 10, unknown_scenario clock0 7 12], 8, 14)"
    using reconcile_small[OF dt, of clock0 "([], 1, 0)"] lp by (simp add: max_array_length_def)
  have "includes_str log_total_seven ''Scenario'' \<or> declaredTotal log_total_seven \<noteq> None"
    using dt by simp
  from ri_prepare_steps[OF this rc rs]
  have h: "ri_prepareScenarioResults match_new clock0 0 log_total_seven
     = Inr (ri_createDefaultScenarios clock0 0
            @ [unknown_scenario clock0 5 8, unknown_scenario clock0 6 10, unknown_scenario clock0 7 12])"
    by simp
  have d: "declared_or_zero log_total_seven = 7"
    using dt by (simp add: declared_or_zero_def numeral_eq_enat)
  have r: "reconstructedCount match_new clock0 0 log_total_seven = Some 0"
    using dt rc by (simp add: reconstructedCount_def)
  have nz: "max (declared_or_zero log_total_seven) (enat 0) \<noteq> 0"
    unfolding d by (simp add: max_def)
  from reconciliation_count[OF h] r nz
  have "enat (length (ri_createDefaultScenarios clock0 0
            @ [unknown_scenario clock0 5 8, unknown_scenario clock0 6 10, unknown_scenario clock0 7 12]))
       = max (declared_or_zero log_total_seven) (enat 0)"
    by auto
  with h d r show ?thesis
    by simp
qed

text \<open>
  C10. The loop of the generic entries brings the list to the declared total, and every
  entry that it appends is named ``Unknown Scenario N'' with N its id plus one, which is
  never the numeral of its own id.
\<close>

theorem generic_entry_number:
  "length (fst (unknown_loop clk n (scs, ctr, t))) = max n (length scs)
   \<and> (\<forall>sc\<in>set (drop (length scs) (fst (unknown_loop clk n (scs, ctr, t)))).
         name sc = ''Unknown Scenario '' @ show_nat (idn sc + 1)
         \<and> name sc \<noteq> ''Unknown Scenario '' @ show_nat (idn sc))"
proof -
  obtain ext where e: "fst (unknown_loop clk n (scs, ctr, t)) = scs @ ext"
    and p: "\<forall>sc\<in>set ext. name sc = ''Unknown Scenario '' @ show_nat (idn sc + 1)"
    using unknown_loop_appends[of clk n scs ctr t] by blast
  have "\<forall>sc\<in>set ext. name sc \<noteq> ''Unknown Scenario '' @ show_nat (idn sc)"
  proof
    fix sc assume "sc \<in> set ext"
    then have "name sc = ''Unknown Scenario '' @ show_nat (idn sc + 1)" using p by blast
    moreover have "show_nat (idn sc + 1) \<noteq> show_nat (idn sc)"
      using show_nat_inj[of "idn sc + 1" "idn sc"] by auto
    ultimately show "name sc \<noteq> ''Unknown Scenario '' @ show_nat (idn sc)" by simp
  qed
  with e p show ?thesis
    using unknown_loop_length[of clk n "(scs, ctr, t)"] by simp
qed

theorem generic_entry_number_witness:
  "unknown_scenario clock0 5 8
     \<in> set (drop (length (ri_createDefaultScenarios clock0 0))
              (fst (unknown_loop clock0 7 (ri_createDefaultScenarios clock0 0, 5, 8))))
   \<and> idn (unknown_scenario clock0 5 8) = 5
   \<and> name (unknown_scenario clock0 5 8) = ''Unknown Scenario 6''"
proof -
  have m: "unknown_scenario clock0 5 8
     \<in> set (drop (length (ri_createDefaultScenarios clock0 0))
              (fst (unknown_loop clock0 7 (ri_createDefaultScenarios clock0 0, 5, 8))))"
    by code_simp
  have i: "idn (unknown_scenario clock0 5 8) = 5"
    by (simp add: unknown_scenario_def passed_scenario_def)
  have s: "show_nat 6 = ''6''"
    by code_simp
  from generic_entry_number[of clock0 7 "ri_createDefaultScenarios clock0 0" 5 8] m
  have "name (unknown_scenario clock0 5 8)
          = ''Unknown Scenario '' @ show_nat (idn (unknown_scenario clock0 5 8) + 1)"
    by blast
  with m i s show ?thesis by simp
qed

section \<open>Two runs on the same log\<close>

lemma view_name: "view c = view c' \<Longrightarrow> name c = name c'"
  by (simp add: view_def)

lemma view_status: "view c = view c' \<Longrightarrow> status c = status c'"
  by (simp add: view_def)

lemma correlates_view: "view c = view c' \<Longrightarrow> correlates line c = correlates line c'"
  by (simp add: fun_eq_iff correlates_def view_def)

lemma complete_accepted_view: "view c = view c' \<Longrightarrow> complete_accepted line c = complete_accepted line c'"
  by (auto simp: complete_accepted_def correlates_def view_def split: option.splits)

lemma failed_accepted_view: "view c = view c' \<Longrightarrow> failed_accepted line c = failed_accepted line c'"
  by (auto simp: failed_accepted_def complete_accepted_view[of c c'] correlates_def view_def split: option.splits)

lemma same_view_current:
  assumes "same_view st st'" and "currentScenario st = Some c"
  obtains c' where "currentScenario st' = Some c'" and "view c = view c'"
  using assms by (cases "currentScenario st'") (auto simp: same_view_def)

lemma push_current_view:
  assumes "same_view st st'"
  shows "map view (push_current st) = map view (push_current st')"
proof (cases "currentScenario st")
  case None
  then have "currentScenario st' = None"
    using assms by (simp add: same_view_def)
  then show ?thesis
    using None assms by (simp add: push_current_def same_view_def)
next
  case (Some c)
  with assms obtain c' where "currentScenario st' = Some c'" and "view c = view c'"
    by (rule same_view_current)
  then show ?thesis
    using Some assms by (simp add: push_current_def same_view_def)
qed

lemma step_view:
  assumes "same_view st st'"
  shows "same_view (step clk st line) (step clk' st' line)"
proof (cases "match_first True scenarioStartRegex line")
  case (Some m)
  then show ?thesis
    using assms push_current_view[OF assms]
    by (simp add: step_def same_view_def view_def)
next
  case None
  show ?thesis
  proof (cases "currentScenario st")
    case cNone: None
    then have "currentScenario st' = None"
      using assms by (simp add: same_view_def)
    then show ?thesis
      using None cNone assms by (simp add: step_def)
  next
    case (Some c)
    with assms obtain c' where c': "currentScenario st' = Some c'" and v: "view c = view c'"
      by (rule same_view_current)
    have ca: "complete_accepted line c = complete_accepted line c'"
      by (rule complete_accepted_view[OF v])
    have fa: "failed_accepted line c = failed_accepted line c'"
      by (rule failed_accepted_view[OF v])
    have sc: "map view (scenarios st) = map view (scenarios st')"
      and ctr: "scenarioIdCounter st = scenarioIdCounter st'"
      using assms by (simp_all add: same_view_def)
    show ?thesis
    proof (cases "complete_accepted line c'")
      case True
      then show ?thesis
        using None Some c' v sc ctr ca by (simp add: step_def same_view_def view_def)
    next
      case nc: False
      show ?thesis
      proof (cases "failed_accepted line c'")
        case True
        then show ?thesis
          using None Some c' v sc ctr ca fa nc by (simp add: step_def same_view_def view_def)
      next
        case nf: False
        show ?thesis
        proof (cases "match_first True warningRegex line")
          case wNone: None
          then show ?thesis
            using None Some c' v sc ctr ca fa nc nf by (simp add: step_def same_view_def view_def)
        next
          case (Some m)
          then show ?thesis
            using None \<open>currentScenario st = Some c\<close> c' v sc ctr ca fa nc nf
            by (simp add: step_def same_view_def view_def)
        qed
      qed
    qed
  qed
qed

lemma run_lines_view:
  "same_view st st' \<Longrightarrow> same_view (run_lines clk st ls) (run_lines clk' st' ls)"
  unfolding run_lines_def
  by (induction ls arbitrary: st st') (simp_all add: step_view)

lemma finish_view:
  assumes "same_view st st'"
  shows "map view (finish clk st) = map view (finish clk' st')"
proof (cases "currentScenario st")
  case None
  then have "currentScenario st' = None"
    using assms by (simp add: same_view_def)
  then show ?thesis
    using None assms by (simp add: finish_def same_view_def)
next
  case (Some c)
  with assms obtain c' where c': "currentScenario st' = Some c'" and v: "view c = view c'"
    by (rule same_view_current)
  then show ?thesis
    using Some assms by (auto simp: finish_def same_view_def view_def)
qed

lemma defaults_from_view:
  "map view (defaults_from clk nms i t) = map view (defaults_from clk' nms i t')"
  by (induction nms arbitrary: i t t') (simp_all add: passed_scenario_def view_def)

lemma view_Nil: "map view xs = map view ys \<Longrightarrow> (xs = []) = (ys = [])"
  by (metis map_is_Nil_conv)

lemma trg_view:
  "map view (trg_prepareScenarioResults clk t testLog) = map view (trg_prepareScenarioResults clk' t' testLog)"
proof -
  let ?i = "\<lambda>u. \<lparr>scenarios = [], currentScenario = None, scenarioIdCounter = 1, tick = u\<rparr>"
  have "same_view (?i t) (?i t')" by (simp add: same_view_def)
  then have "same_view (run_lines clk (?i t) (split_lines testLog)) (run_lines clk' (?i t') (split_lines testLog))"
    by (rule run_lines_view)
  then have f: "map view (finish clk (run_lines clk (?i t) (split_lines testLog)))
      = map view (finish clk' (run_lines clk' (?i t') (split_lines testLog)))"
    by (rule finish_view)
  have d: "\<And>u u'. map view (createDefaultScenarios clk u) = map view (createDefaultScenarios clk' u')"
    by (simp add: createDefaultScenarios_def defaults_from_view[of clk _ _ _ clk'] del: defaults_from.simps)
  show ?thesis
    using f d view_Nil[OF f]
    by (simp add: trg_prepareScenarioResults_def Let_def)
qed

lemma named_scenario_view:
  "map_sum id view (named_scenario eng clk testLog nm i t)
     = map_sum id view (named_scenario eng clk' testLog nm i t')"
  by (simp add: named_scenario_def view_def split: sum.splits)

lemma names_loop_view:
  "map view scs = map view scs' \<Longrightarrow>
   map_sum id rview (names_loop eng clk testLog nms (scs, ctr, t))
     = map_sum id rview (names_loop eng clk' testLog nms (scs', ctr, t'))"
proof (induction nms arbitrary: scs scs' ctr t t')
  case Nil
  then show ?case by (simp add: rview_def)
next
  case (Cons nm nms)
  show ?case
  proof (cases "named_scenario eng clk testLog nm ctr t")
    case (Inl e)
    then have "named_scenario eng clk' testLog nm ctr t' = Inl e"
      using named_scenario_view[of eng clk testLog nm ctr t clk' t']
      by (cases "named_scenario eng clk' testLog nm ctr t'") simp_all
    with Inl show ?thesis by simp
  next
    case (Inr sc)
    then obtain sc' where s': "named_scenario eng clk' testLog nm ctr t' = Inr sc'" and v: "view sc = view sc'"
      using named_scenario_view[of eng clk testLog nm ctr t clk' t']
      by (cases "named_scenario eng clk' testLog nm ctr t'") simp_all
    have "map view (scs @ [sc]) = map view (scs' @ [sc'])"
      using Cons.prems v by simp
    from Cons.IH[OF this] Inr s' show ?thesis by simp
  qed
qed

lemma default_loop_view:
  "map view scs = map view scs' \<Longrightarrow>
   rview (default_loop clk n known pool (scs, ctr, t)) = rview (default_loop clk' n known pool (scs', ctr, t'))"
proof (induction pool arbitrary: scs scs' ctr t t')
  case Nil
  then show ?case by (simp add: rview_def)
next
  case (Cons nm pool)
  have l: "length scs = length scs'"
    using Cons.prems by (rule map_eq_imp_length_eq)
  have p: "view (passed_scenario clk ctr nm t) = view (passed_scenario clk' ctr nm t')"
    by (simp add: passed_scenario_def view_def)
  have e: "map view (scs @ [passed_scenario clk ctr nm t]) = map view (scs' @ [passed_scenario clk' ctr nm t'])"
    using Cons.prems p by simp
  show ?case
    using Cons.IH[OF e] Cons.IH[OF Cons.prems] l e
    by (simp add: rview_def)
qed

lemma unknown_loop_view:
  "map view scs = map view scs' \<Longrightarrow>
   rview (unknown_loop clk n (scs, ctr, t)) = rview (unknown_loop clk' n (scs', ctr, t'))"
proof (induction clk n "(scs, ctr, t)" arbitrary: scs scs' ctr t t' rule: unknown_loop.induct)
  case (1 clk n scs ctr t)
  have l: "length scs = length scs'"
    using "1.prems" by (rule map_eq_imp_length_eq)
  show ?case
  proof (cases "length scs < n")
    case True
    have e: "map view (scs @ [unknown_scenario clk ctr t]) = map view (scs' @ [unknown_scenario clk' ctr t'])"
      using "1.prems" by (simp add: unknown_scenario_def passed_scenario_def view_def)
    from "1.hyps"[OF True e, of "t' + 2"] True l show ?thesis
      by (subst unknown_loop.simps, subst (2) unknown_loop.simps) simp
  next
    case False
    then show ?thesis
      using l "1.prems"
      by (subst unknown_loop.simps, subst (2) unknown_loop.simps) (simp add: rview_def)
  qed
qed

lemma view_names: "map view scs = map view scs' \<Longrightarrow> map name scs = map name scs'"
proof -
  assume "map view scs = map view scs'"
  then have "map (fst \<circ> snd) (map view scs) = map (fst \<circ> snd) (map view scs')" by simp
  then show ?thesis by (simp add: view_def comp_def)
qed

lemma reconcile_view:
  assumes "rview st = rview st'"
  shows "map_sum id rview (reconcile clk testLog st) = map_sum id rview (reconcile clk' testLog st')"
proof -
  obtain scs ctr t where st: "st = (scs, ctr, t)" by (cases st)
  obtain scs' ctr' t' where st': "st' = (scs', ctr', t')" by (cases st')
  have v: "map view scs = map view scs'" and c: "ctr' = ctr"
    using assms by (simp_all add: rview_def st st')
  have l: "length scs = length scs'" using v by (rule map_eq_imp_length_eq)
  have n: "map name scs = map name scs'" using v by (rule view_names)
  show ?thesis
  proof (cases "declaredTotal testLog")
    case None
    then show ?thesis using assms by (simp add: reconcile_def)
  next
    case (Some total)
    show ?thesis
    proof (cases total)
      case infinity
      then show ?thesis
        using Some l by (simp add: reconcile_def st st')
    next
      case (enat k)
      have d: "rview (default_loop clk k (map name scs) defaultScenarios (scs, ctr, t))
             = rview (default_loop clk' k (map name scs) defaultScenarios (scs', ctr, t'))"
        by (rule default_loop_view[OF v])
      obtain a b u where x: "default_loop clk k (map name scs) defaultScenarios (scs, ctr, t) = (a, b, u)"
        by (cases "default_loop clk k (map name scs) defaultScenarios (scs, ctr, t)")
      obtain a' b' u' where x': "default_loop clk' k (map name scs) defaultScenarios (scs', ctr, t') = (a', b', u')"
        by (cases "default_loop clk' k (map name scs) defaultScenarios (scs', ctr, t')")
      have "map view a = map view a'" and "b' = b"
        using d x x' by (simp_all add: rview_def)
      then have "rview (unknown_loop clk k (a, b, u)) = rview (unknown_loop clk' k (a', b', u'))"
        using unknown_loop_view[of a a' clk k b u clk' u'] by simp
      then show ?thesis
        using Some enat assms l n x x' by (simp add: reconcile_def st st' c)
    qed
  qed
qed

lemma ri_view:
  "map_sum id (map view) (ri_prepareScenarioResults eng clk t testLog)
     = map_sum id (map view) (ri_prepareScenarioResults eng clk' t' testLog)"
proof (cases "\<not> includes_str testLog ''Scenario'' \<and> declaredTotal testLog = None")
  case True
  then show ?thesis
    by (simp add: ri_prepareScenarioResults_def ri_createDefaultScenarios_def
                  defaults_from_view[of clk _ _ _ clk'])
next
  case False
  have r: "map_sum id rview (reconstruct eng clk t testLog) = map_sum id rview (reconstruct eng clk' t' testLog)"
    unfolding reconstruct_def by (rule names_loop_view) simp
  show ?thesis
  proof (cases "reconstruct eng clk t testLog")
    case (Inl e)
    then have "reconstruct eng clk' t' testLog = Inl e"
      using r by (cases "reconstruct eng clk' t' testLog") simp_all
    with Inl False show ?thesis by (auto simp: ri_prepareScenarioResults_def)
  next
    case (Inr st)
    then obtain st' where s': "reconstruct eng clk' t' testLog = Inr st'" and v: "rview st = rview st'"
      using r by (cases "reconstruct eng clk' t' testLog") simp_all
    have rv: "map_sum id rview (reconcile clk testLog st) = map_sum id rview (reconcile clk' testLog st')"
      by (rule reconcile_view[OF v])
    show ?thesis
    proof (cases "reconcile clk testLog st")
      case rl: (Inl e)
      then have "reconcile clk' testLog st' = Inl e"
        using rv by (cases "reconcile clk' testLog st'") simp_all
      with rl False Inr s' show ?thesis by (auto simp: ri_prepareScenarioResults_def)
    next
      case rr: (Inr q)
      then obtain q' where q': "reconcile clk' testLog st' = Inr q'" and qv: "rview q = rview q'"
        using rv by (cases "reconcile clk' testLog st'") simp_all
      obtain a b u where x: "q = (a, b, u)" by (cases q)
      obtain a' b' u' where x': "q' = (a', b', u')" by (cases q')
      have av: "map view a = map view a'" using qv x x' by (simp add: rview_def)
      show ?thesis
        using False Inr s' rr q' x x' av view_Nil[OF av]
        by (auto simp: ri_prepareScenarioResults_def ri_createDefaultScenarios_def
                    defaults_from_view[of clk _ _ _ clk'])
    qed
  qed
qed

text \<open>
  C9. Both functions keep nothing between two calls: the counter of ids and the patterns
  are local to a call, and only the clock differs. Two runs on the same log, whatever the
  clock shows in each, return lists with the same ids, names and statuses in the same
  order, in the report generator and in the report integration, whatever the engine
  does with the patterns built from the names; when one run of the latter throws, so
  does the other, with the same exception.
\<close>

theorem same_log_same_view:
  "map view (trg_prepareScenarioResults clk t testLog)
     = map view (trg_prepareScenarioResults clk' t' testLog)
   \<and> map_sum id (map view) (ri_prepareScenarioResults eng clk t testLog)
     = map_sum id (map view) (ri_prepareScenarioResults eng clk' t' testLog)"
  using trg_view[of clk t testLog clk' t'] ri_view[of eng clk t testLog clk' t'] by simp

section \<open>The report of a log\<close>

lemma addScenario_fields:
  "report_scenarios (addScenario r sc) = report_scenarios r @ [sc]"
  "metrics (addScenario r sc) = metrics r"
  by (simp_all add: addScenario_def Let_def)

lemma foldl_addScenario_fields:
  "report_scenarios (foldl addScenario r scs) = report_scenarios r @ scs
   \<and> metrics (foldl addScenario r scs) = metrics r"
  by (induction scs arbitrary: r) (simp_all add: addScenario_fields)

lemma foldl_addError_fields:
  "report_scenarios (foldl addError r es) = report_scenarios r
   \<and> summary (foldl addError r es) = summary r
   \<and> averageResponseTime (metrics (foldl addError r es)) = averageResponseTime (metrics r)
   \<and> errors (metrics (foldl addError r es)) = errors (metrics r) @ es"
  by (induction es arbitrary: r) (simp_all add: addError_def)

lemma generateSummary_fields:
  "report_scenarios (generateSummary r) = report_scenarios r"
  "summary (generateSummary r) = summary r"
  by (simp_all add: generateSummary_def)

lemma names_loop_durations:
  "names_loop eng clk testLog nms (scs, ctr, t) = Inr st \<Longrightarrow>
   list_all settled scs \<Longrightarrow>
   list_all settled (fst st)"
proof (induction nms arbitrary: scs ctr t)
  case Nil
  then show ?case by auto
next
  case (Cons nm nms)
  from Cons.prems(1) obtain sc where n: "named_scenario eng clk testLog nm ctr t = Inr sc"
    and l: "names_loop eng clk testLog nms (scs @ [sc], ctr + 1, t + 2) = Inr st"
    by (auto split: sum.splits)
  from n have "settled sc"
    by (auto simp: named_scenario_def settled_def split: sum.splits if_splits)
  with Cons.prems(2) have "list_all settled (scs @ [sc])"
    by simp
  with l show ?case by (rule Cons.IH)
qed

lemma default_loop_durations:
  "list_all settled scs \<Longrightarrow>
   list_all settled (fst (default_loop clk n known pool (scs, ctr, t)))"
  by (induction pool arbitrary: scs ctr t) (simp_all add: passed_scenario_def settled_def)

lemma unknown_loop_durations:
  "list_all settled scs \<Longrightarrow>
   list_all settled (fst (unknown_loop clk n (scs, ctr, t)))"
proof (induction clk n "(scs, ctr, t)" arbitrary: scs ctr t rule: unknown_loop.induct)
  case (1 clk n scs ctr t)
  show ?case
  proof (cases "length scs < n")
    case True
    have "list_all settled (scs @ [unknown_scenario clk ctr t])"
      using "1.prems" by (simp add: unknown_scenario_def passed_scenario_def settled_def)
    from "1.hyps"[OF True this] True show ?thesis
      by (subst unknown_loop.simps) simp
  next
    case False
    then show ?thesis
      using "1.prems" by (subst unknown_loop.simps) simp
  qed
qed

lemma defaults_from_durations:
  "list_all settled (defaults_from clk nms i t)"
  by (induction nms arbitrary: i t) (simp_all add: passed_scenario_def settled_def)

lemma reconcile_durations:
  assumes "reconcile clk testLog st = Inr st'" and a: "list_all settled (fst st)"
  shows "list_all settled (fst st')"
proof -
  obtain scs ctr t where st: "st = (scs, ctr, t)" by (cases st)
  show ?thesis
  proof (cases "declaredTotal testLog")
    case None
    then show ?thesis using assms by (simp add: reconcile_def)
  next
    case (Some total)
    show ?thesis
    proof (cases "enat (length scs) < total")
      case False
      then show ?thesis using assms Some by (simp add: reconcile_def st)
    next
      case True
      with assms Some obtain k where
        st': "st' = unknown_loop clk k (default_loop clk k (map name scs) defaultScenarios (scs, ctr, t))"
        by (cases total) (auto simp: reconcile_def st split: if_splits)
      obtain a' b' u' where x: "default_loop clk k (map name scs) defaultScenarios (scs, ctr, t) = (a', b', u')"
        by (cases "default_loop clk k (map name scs) defaultScenarios (scs, ctr, t)")
      have "list_all settled a'"
        using default_loop_durations[of scs clk k "map name scs" defaultScenarios ctr t] a x st by simp
      then have "list_all settled (fst (unknown_loop clk k (a', b', u')))"
        by (rule unknown_loop_durations)
      then show ?thesis
        using x by (simp add: st')
    qed
  qed
qed

lemma ri_prepare_settled:
  assumes "ri_prepareScenarioResults eng clk t0 testLog = Inr out"
  shows "out \<noteq> [] \<and> list_all settled out"
proof (cases "\<not> includes_str testLog ''Scenario'' \<and> declaredTotal testLog = None")
  case True
  then have "out = ri_createDefaultScenarios clk t0"
    using assms by (simp add: ri_prepareScenarioResults_def)
  then show ?thesis
    by (simp add: ri_createDefaultScenarios_def defaults_from_durations)
       (simp add: defaultScenarios_def)
next
  case False
  then obtain st where rc: "reconstruct eng clk t0 testLog = Inr st"
    using assms by (auto simp: ri_prepareScenarioResults_def split: sum.splits)
  from False rc obtain st' where rs': "reconcile clk testLog st = Inr st'"
    using assms by (auto simp: ri_prepareScenarioResults_def split: sum.splits)
  obtain scs ctr t where st': "st' = (scs, ctr, t)" by (cases st')
  have "list_all settled (fst st)"
    using rc names_loop_durations[of eng clk testLog "ri_scenario_names testLog" "[]" 1 t0 st]
    by (simp add: reconstruct_def)
  then have d: "list_all settled scs"
    using reconcile_durations[OF rs'] st' by simp
  have out: "out = (if scs = [] then ri_createDefaultScenarios clk t else scs)"
    using assms False rc rs' st' by (auto simp: ri_prepareScenarioResults_def)
  show ?thesis
  proof (cases "scs = []")
    case True
    then show ?thesis
      using out
      by (simp add: ri_createDefaultScenarios_def defaults_from_durations)
       (simp add: defaultScenarios_def)
  next
    case False
    then show ?thesis using out d by simp
  qed
qed

lemma settled_not_running: "list_all settled scs \<Longrightarrow> running_count scs = 0"
  by (induction scs) (simp_all add: running_count_def settled_def)

lemma truthy_durations_placeholder:
  "list_all settled scs \<Longrightarrow> truthy_durations scs = replicate (length scs) 5000"
  by (induction scs) (simp_all add: truthy_durations_def settled_def)

lemma mean_replicate: "0 < n \<Longrightarrow> mean (replicate n d) = of_nat d"
  by (simp add: mean_def sum_list_replicate)

lemma number_of_zero: "(number_of v = Num 0) = (v = 0)"
  by (cases v) (simp_all add: number_of_def zero_enat_def)

lemma setTiming_every_date: "setTiming_returns every_date logContent"
  by (simp add: setTiming_returns_def date_text_ok_def every_date_def split: option.splits)

text \<open>What \<open>processTestLog\<close> returns when it returns a report.\<close>

lemma processTestLog_report:
  assumes "processTestLog eng date_ok clk t0 logContent = Some r"
  shows "\<exists>scs. ri_prepareScenarioResults eng clk t0 logContent = Inr scs
           \<and> report_scenarios r = scs
           \<and> summary r = summary (foldl addScenario new_testResults scs)
           \<and> averageResponseTime (metrics r) =
               (if log_averageResponseTime logContent = 0 then Num (mean (truthy_durations scs))
                else number_of (log_averageResponseTime logContent))"
proof -
  from assms obtain scs where p: "ri_prepareScenarioResults eng clk t0 logContent = Inr scs"
    by (auto simp: processTestLog_def split: sum.splits if_splits)
  define r3 where "r3 = foldl addError
               (addMetrics (log_loadTime logContent) (number_of (log_averageResponseTime logContent))
                  (foldl addScenario new_testResults scs))
               (log_errors clk (t0 + 2 * length scs) logContent)"
  have r: "r = generateSummary r3"
    using assms p by (simp add: processTestLog_def r3_def split: if_splits)
  have s3: "report_scenarios r3 = scs"
    by (simp add: r3_def foldl_addError_fields addMetrics_def foldl_addScenario_fields new_testResults_def)
  have a3: "averageResponseTime (metrics r3) = number_of (log_averageResponseTime logContent)"
    by (simp add: r3_def foldl_addError_fields addMetrics_def)
  have u3: "summary r3 = summary (foldl addScenario new_testResults scs)"
    by (simp add: r3_def foldl_addError_fields addMetrics_def)
  from ri_prepare_settled[OF p] have ne: "scs \<noteq> []"
    and d: "list_all settled scs" by simp_all
  have tne: "truthy_durations scs \<noteq> []"
    using truthy_durations_placeholder[OF d] ne by simp
  have rs: "report_scenarios r = scs"
    unfolding r using s3 by (simp add: generateSummary_fields)
  have su: "summary r = summary (foldl addScenario new_testResults scs)"
    unfolding r using u3 by (simp add: generateSummary_fields)
  have av: "averageResponseTime (metrics r) =
          (if log_averageResponseTime logContent = 0 then Num (mean (truthy_durations scs))
           else number_of (log_averageResponseTime logContent))"
  proof (cases "log_averageResponseTime logContent = 0")
    case True
    then have "averageResponseTime (metrics r3) = Num 0" using a3 by (simp add: number_of_zero)
    then have "generateSummary r3
                 = r3\<lparr>metrics := (metrics r3)\<lparr>averageResponseTime := Num (mean (truthy_durations scs))\<rparr>\<rparr>"
      using s3 ne tne by (simp add: generateSummary_def)
    then show ?thesis using True r by simp
  next
    case False
    then have "averageResponseTime (metrics r3) \<noteq> Num 0" using a3 by (simp add: number_of_zero)
    then have "generateSummary r3 = r3"
      by (simp add: generateSummary_def)
    then show ?thesis using False r a3 by simp
  qed
  from p rs su av show ?thesis by blast
qed

text \<open>
  \<open>processTestLog\<close> returns a report when the dates of the log are read as dates and
  the scenario preparation returns.
\<close>

lemma processTestLog_returns:
  "setTiming_returns date_ok logContent \<Longrightarrow>
   ri_prepareScenarioResults eng clk t0 logContent = Inr scs \<Longrightarrow>
   \<exists>r. processTestLog eng date_ok clk t0 logContent = Some r"
  by (simp add: processTestLog_def)

text \<open>A text that is not read as a date ends the run before the scenarios are prepared.\<close>

lemma invalid_date_no_report:
  "\<not> setTiming_returns date_ok logContent \<Longrightarrow> processTestLog eng date_ok clk t0 logContent = None"
  by (simp add: processTestLog_def)

text \<open>From \<open>2^53\<close> on \<open>parseInt\<close> answers the nearest double, the even one at a tie.\<close>

lemma parseInt_rounds:
  "parseInt ''9007199254740993'' = 9007199254740992"
  "parseInt ''9007199254740995'' = 9007199254740996"
  by (simp_all add: parseInt_def dec_value_def digit_val_def to_double_def bit_length.simps
        numeral_eq_enat)

section \<open>The summary of a report\<close>

text \<open>
  C3. In every report that \<open>processTestLog\<close> produces, with whatever engine and
  whatever reading of dates, the total of the summary is the sum of its passed, failed
  and warning counts, and the number of the scenarios of the report: the scenarios that
  it adds come from the report integration, where every status is a final one.
\<close>

theorem report_counts_add_up:
  assumes "processTestLog eng date_ok clk t0 logContent = Some r"
  shows "total (summary r) = passed (summary r) + failed (summary r) + warning (summary r)
         \<and> total (summary r) = length (report_scenarios r)"
proof -
  from processTestLog_report[OF assms] obtain scs where
    p: "ri_prepareScenarioResults eng clk t0 logContent = Inr scs"
    and rs: "report_scenarios r = scs"
    and su: "summary r = summary (foldl addScenario new_testResults scs)"
    by blast
  from ri_prepare_settled[OF p] have "running_count scs = 0"
    by (simp add: settled_not_running)
  then have "total (summary r) = passed (summary r) + failed (summary r) + warning (summary r)"
    using report_summary_counts[of scs] su by simp
  moreover have "total (summary r) = length (report_scenarios r)"
    using summary_counts[of new_testResults scs] su rs by (simp add: new_testResults_def)
  ultimately show ?thesis by simp
qed

theorem report_counts_add_up_witness:
  "map_option (\<lambda>r. (total (summary r), passed (summary r), failed (summary r), warning (summary r)))
     (processTestLog match_new every_date clock0 0 log_two_of_four) = Some (4, 3, 1, 0)
   \<and> (4::nat) = 3 + 1 + 0"
proof -
  obtain r where h: "processTestLog match_new every_date clock0 0 log_two_of_four = Some r"
    using processTestLog_returns[OF setTiming_every_date run_two_of_four] by blast
  from processTestLog_report[OF h] run_two_of_four
  have su: "summary r = summary (foldl addScenario new_testResults
     [passed_scenario clock0 1 ''Tab Navigation'' 0,
      passed_scenario clock0 2 ''Dashboard Controls'' 2\<lparr>status := Failed, error := Some ''timeout''\<rparr>,
      passed_scenario clock0 3 ''Navigate Dashboard Tabs'' 4,
      passed_scenario clock0 4 ''Test Dashboard Input Controls'' 6])"
    by auto
  have "passed (summary r) = 3 \<and> failed (summary r) = 1 \<and> warning (summary r) = 0"
    unfolding su
    by (simp add: addScenario_def new_testResults_def count_status_def passed_scenario_def)
  with report_counts_add_up[OF h] h show ?thesis
    by simp
qed

section \<open>The average response time\<close>

text \<open>
  C7, as the specification states it: without a marker the average response time is
  the mean of the scenario durations. The log of the concrete scenario has no marker and
  four scenarios of 5000 ms each; the report says 500.
\<close>

theorem average_response_time_counterexample:
  "map_option (averageResponseTime \<circ> metrics)
     (processTestLog match_new every_date clock0 0 log_two_of_four) = Some (Num 500)
   \<and> map_option (spec_averageResponseTime log_two_of_four \<circ> report_scenarios)
       (processTestLog match_new every_date clock0 0 log_two_of_four) = Some (Num 5000)"
proof -
  obtain r where h: "processTestLog match_new every_date clock0 0 log_two_of_four = Some r"
    using processTestLog_returns[OF setTiming_every_date run_two_of_four] by blast
  have "match_first False responseTimeRegex log_two_of_four = None"
    by code_simp
  then have n: "responseTimeMatch log_two_of_four = None"
    by (simp add: responseTimeMatch_def)
  then have l: "log_averageResponseTime log_two_of_four = 500"
    by (simp add: log_averageResponseTime_def)
  have l0: "log_averageResponseTime log_two_of_four \<noteq> 0"
    unfolding l by simp
  have n5: "number_of 500 = Num 500"
    by (simp add: number_of_def numeral_eq_enat)
  from processTestLog_report[OF h] run_two_of_four
  have rs: "report_scenarios r =
     [passed_scenario clock0 1 ''Tab Navigation'' 0,
      passed_scenario clock0 2 ''Dashboard Controls'' 2\<lparr>status := Failed, error := Some ''timeout''\<rparr>,
      passed_scenario clock0 3 ''Navigate Dashboard Tabs'' 4,
      passed_scenario clock0 4 ''Test Dashboard Input Controls'' 6]"
    and av: "averageResponseTime (metrics r) = Num 500"
    using l l0 n5 by auto
  have "spec_averageResponseTime log_two_of_four (report_scenarios r) = Num 5000"
    unfolding rs by (simp add: spec_averageResponseTime_def n passed_scenario_def mean_def)
  with av h show ?thesis by simp
qed

text \<open>
  C7, amended. In a report that \<open>processTestLog\<close> produces, with whatever engine and
  whatever reading of dates, the average response time is 500 when the log has no
  marker, and with a marker it is the number that \<open>parseInt\<close> reads from the digits
  of the first one, when that number is not zero: the value of the digits up to \<open>2^53\<close>,
  the nearest double beyond, \<open>Infinity\<close> at the end. The mean of the scenario
  durations is taken only when the marker reads zero; every scenario of the report
  carries the placeholder 5000 then as always, so that mean is 5000.
\<close>

theorem average_response_time_source:
  assumes "processTestLog eng date_ok clk t0 logContent = Some r"
  shows "averageResponseTime (metrics r) =
           (case match_first False responseTimeRegex logContent of
              None \<Rightarrow> Num 500
            | Some m \<Rightarrow>
                if parseInt (group1 m) \<noteq> 0 then number_of (parseInt (group1 m))
                else Num (mean (truthy_durations (report_scenarios r))))
         \<and> truthy_durations (report_scenarios r) = replicate (length (report_scenarios r)) 5000
         \<and> mean (truthy_durations (report_scenarios r)) = 5000"
proof -
  from processTestLog_report[OF assms] obtain scs where
    p: "ri_prepareScenarioResults eng clk t0 logContent = Inr scs"
    and rs: "report_scenarios r = scs"
    and av: "averageResponseTime (metrics r) =
               (if log_averageResponseTime logContent = 0 then Num (mean (truthy_durations scs))
                else number_of (log_averageResponseTime logContent))"
    by blast
  from ri_prepare_settled[OF p] have ne: "scs \<noteq> []" and d: "list_all settled scs"
    by simp_all
  have td: "truthy_durations scs = replicate (length scs) 5000"
    using d by (rule truthy_durations_placeholder)
  have m: "mean (truthy_durations scs) = 5000"
    using td ne mean_replicate[of "length scs" 5000] by simp
  have n5: "number_of 500 = Num 500"
    by (simp add: number_of_def numeral_eq_enat)
  have "averageResponseTime (metrics r) =
           (case match_first False responseTimeRegex logContent of
              None \<Rightarrow> Num 500
            | Some m \<Rightarrow>
                if parseInt (group1 m) \<noteq> 0 then number_of (parseInt (group1 m))
                else Num (mean (truthy_durations (report_scenarios r))))"
  proof (cases "match_first False responseTimeRegex logContent")
    case None
    then have "log_averageResponseTime logContent = 500"
      by (simp add: log_averageResponseTime_def responseTimeMatch_def)
    then show ?thesis using av None n5 by simp
  next
    case (Some m)
    then have "log_averageResponseTime logContent = parseInt (group1 m)"
      by (simp add: log_averageResponseTime_def responseTimeMatch_def)
    then show ?thesis using av rs Some by simp
  qed
  with td m rs show ?thesis by simp
qed

theorem average_response_time_source_witness:
  "map_option (averageResponseTime \<circ> metrics)
     (processTestLog match_new every_date clock0 0 ''Average response time: 12ms'') = Some (Num 12)
   \<and> match_first False responseTimeRegex ''Average response time: 12ms'' = Some (0, 27, [(1, ''12'')])
   \<and> parseInt ''12'' = 12"
proof -
  have "\<not> includes_str ''Average response time: 12ms'' ''Scenario''"
    by code_simp
  moreover have "match_first False totalScenariosRegex ''Average response time: 12ms'' = None"
    by code_simp
  ultimately have "ri_prepareScenarioResults match_new clock0 0 ''Average response time: 12ms''
          = Inr (ri_createDefaultScenarios clock0 0)"
    by (simp add: ri_prepareScenarioResults_def declaredTotal_def)
  then obtain r where h: "processTestLog match_new every_date clock0 0 ''Average response time: 12ms'' = Some r"
    using processTestLog_returns[OF setTiming_every_date] by blast
  have v: "match_first False responseTimeRegex ''Average response time: 12ms'' = Some (0, 27, [(1, ''12'')])"
    by code_simp
  have g: "group1 (0, 27, [(1, ''12'')]) = ''12''"
    by (simp add: group1_def group_def)
  have q: "parseInt ''12'' = 12"
    by (simp add: parseInt_def dec_value_def digit_val_def to_double_def numeral_eq_enat)
  have n: "number_of 12 = Num 12"
    by (simp add: number_of_def numeral_eq_enat)
  from average_response_time_source[OF h] v g q n h show ?thesis
    by simp
qed

section \<open>The errors of a log\<close>

lemma error_records_length: "length (error_records clk t logContent ms) = length ms"
  by (induction ms arbitrary: t) simp_all

lemma error_records_nth:
  "k < length ms \<Longrightarrow>
   error_records clk t logContent ms ! k =
     \<lparr>message = trim (errorLine logContent (fst (ms ! k))), timestamp = clk (t + k),
      scenario_of = ''Unknown''\<rparr>"
proof (induction ms arbitrary: t k)
  case Nil
  then show ?case by simp
next
  case (Cons m ms)
  then show ?case by (cases k) simp_all
qed

lemma errorLine_up_to_line_break:
  assumes "LF \<in> set (drop i logContent)"
  shows "errorLine logContent i = up_to_line_break logContent i"
proof -
  let ?d = "drop i logContent"
  let ?tw = "takeWhile (\<lambda>c. c \<noteq> LF) ?d"
  have il: "i < length logContent"
    using assms by (cases "i < length logContent") auto
  have "dropWhile (\<lambda>c. c \<noteq> LF) ?d \<noteq> []"
    using assms by (simp add: dropWhile_eq_Nil_conv)
  then obtain x rest where dw: "dropWhile (\<lambda>c. c \<noteq> LF) ?d = x # rest"
    by (cases "dropWhile (\<lambda>c. c \<noteq> LF) ?d") auto
  have "length ?d = length ?tw + length (dropWhile (\<lambda>c. c \<noteq> LF) ?d)"
    by (metis length_append takeWhile_dropWhile_id)
  then have len: "length logContent - i = length ?tw + Suc (length rest)"
    using dw by simp
  then have idx: "indexOf_LF logContent i = int (i + length ?tw)"
    using dw il by simp
  have c1: "clamp_index logContent (int i) = i"
    using il by (simp add: clamp_index_def)
  have c2: "clamp_index logContent (int (i + length ?tw)) = i + length ?tw"
    using il len unfolding clamp_index_def by (simp only: nat_int) simp
  have "substring logContent (int i) (int (i + length ?tw)) = take (length ?tw) ?d"
    unfolding substring_def c1 c2 by (simp add: Let_def)
  also have "\<dots> = ?tw"
    by (metis append_eq_conv_conj takeWhile_dropWhile_id)
  finally show ?thesis
    by (simp add: errorLine_def idx up_to_line_break_def del: indexOf_LF.simps)
qed

lemma startsWith_ci_length: "startsWith_ci s p \<Longrightarrow> length p \<le> length s"
  by (induction s p rule: startsWith_ci.induct) simp_all

lemma run_lits:
  "run True (lits p Eps) s cs = (if startsWith_ci s p then [(drop (length p) s, cs)] else [])"
proof (induction p arbitrary: s)
  case Nil
  then show ?case by (simp add: lits_def)
next
  case (Cons c p)
  have l: "lits (c # p) Eps = Seq (One (Lit c)) (lits p Eps)"
    by (simp add: lits_def)
  show ?case
  proof (cases s)
    case Nil
    then show ?thesis by (simp add: l)
  next
    case (Cons d s')
    then show ?thesis
      using Cons.IH[of s'] by (auto simp: l)
  qed
qed

lemma exec_at_two_literals:
  "exec_at True (Alt (lits p Eps) (lits q Eps)) s =
     (if startsWith_ci s p then Some (length p, [])
      else if startsWith_ci s q then Some (length q, [])
      else None)"
proof -
  have "length s - length (drop (length p) s) = length p" if "startsWith_ci s p" for p
    using startsWith_ci_length[OF that] by simp
  then show ?thesis
    by (simp add: exec_at_def run_lits del: length_drop)
qed

lemma exec_at_errorRegex:
  "exec_at True errorRegex s =
     (if startsWith_ci s ''Error:'' then Some (6, [])
      else if startsWith_ci s ''failed:'' then Some (7, [])
      else None)"
  unfolding errorRegex_def exec_at_two_literals by simp

lemma error_marker_exec: "error_marker s = (exec_at True errorRegex s \<noteq> None)"
  unfolding exec_at_errorRegex error_marker_def by simp

lemma startsWith_ci_Cons:
  "startsWith_ci s (c # p) = (\<exists>d s'. s = d # s' \<and> canonicalize d = canonicalize c \<and> startsWith_ci s' p)"
  by (cases s) simp_all

lemma canonicalize_markers:
  "canonicalize CHR ''E'' = CHR ''E''" "canonicalize CHR ''r'' = CHR ''R''"
  "canonicalize CHR ''o'' = CHR ''O''" "canonicalize CHR '':'' = CHR '':''"
  "canonicalize CHR ''f'' = CHR ''F''" "canonicalize CHR ''a'' = CHR ''A''"
  "canonicalize CHR ''i'' = CHR ''I''" "canonicalize CHR ''l'' = CHR ''L''"
  "canonicalize CHR ''e'' = CHR ''E''" "canonicalize CHR ''d'' = CHR ''D''"
  by (simp_all add: canonicalize_def)

lemma error_marker_first:
  "error_marker (d # s) \<Longrightarrow> canonicalize d = CHR ''E'' \<or> canonicalize d = CHR ''F''"
  by (auto simp: error_marker_def canonicalize_markers)

lemma error_marker_Nil: "\<not> error_marker []"
  by (simp add: error_marker_def)

lemma Error_chars:
  assumes "startsWith_ci s ''Error:''"
  obtains c0 c1 c2 c3 c4 c5 rest where "s = c0 # c1 # c2 # c3 # c4 # c5 # rest"
    and "canonicalize c1 = CHR ''R''" and "canonicalize c2 = CHR ''R''"
    and "canonicalize c3 = CHR ''O''" and "canonicalize c4 = CHR ''R''"
    and "canonicalize c5 = CHR '':''"
proof -
  from assms obtain c0 s0 where s0: "s = c0 # s0" "startsWith_ci s0 ''rror:''"
    by (cases s) simp_all
  from s0(2) obtain c1 s1 where s1: "s0 = c1 # s1" "canonicalize c1 = CHR ''R''" "startsWith_ci s1 ''ror:''"
    by (cases s0) (simp_all add: canonicalize_markers)
  from s1(3) obtain c2 s2 where s2: "s1 = c2 # s2" "canonicalize c2 = CHR ''R''" "startsWith_ci s2 ''or:''"
    by (cases s1) (simp_all add: canonicalize_markers)
  from s2(3) obtain c3 s3 where s3: "s2 = c3 # s3" "canonicalize c3 = CHR ''O''" "startsWith_ci s3 ''r:''"
    by (cases s2) (simp_all add: canonicalize_markers)
  from s3(3) obtain c4 s4 where s4: "s3 = c4 # s4" "canonicalize c4 = CHR ''R''" "startsWith_ci s4 '':''"
    by (cases s3) (simp_all add: canonicalize_markers)
  from s4(3) obtain c5 s5 where s5: "s4 = c5 # s5" "canonicalize c5 = CHR '':''"
    by (cases s4) (simp_all add: canonicalize_markers)
  show thesis
    using that[of c0 c1 c2 c3 c4 c5 s5] s0 s1 s2 s3 s4 s5 by simp
qed

lemma failed_chars:
  assumes "startsWith_ci s ''failed:''"
  obtains c0 c1 c2 c3 c4 c5 c6 rest where "s = c0 # c1 # c2 # c3 # c4 # c5 # c6 # rest"
    and "canonicalize c1 = CHR ''A''" and "canonicalize c2 = CHR ''I''"
    and "canonicalize c3 = CHR ''L''" and "canonicalize c4 = CHR ''E''"
    and "canonicalize c5 = CHR ''D''" and "canonicalize c6 = CHR '':''"
proof -
  from assms obtain c0 s0 where s0: "s = c0 # s0" "startsWith_ci s0 ''ailed:''"
    by (cases s) simp_all
  from s0(2) obtain c1 s1 where s1: "s0 = c1 # s1" "canonicalize c1 = CHR ''A''" "startsWith_ci s1 ''iled:''"
    by (cases s0) (simp_all add: canonicalize_markers)
  from s1(3) obtain c2 s2 where s2: "s1 = c2 # s2" "canonicalize c2 = CHR ''I''" "startsWith_ci s2 ''led:''"
    by (cases s1) (simp_all add: canonicalize_markers)
  from s2(3) obtain c3 s3 where s3: "s2 = c3 # s3" "canonicalize c3 = CHR ''L''" "startsWith_ci s3 ''ed:''"
    by (cases s2) (simp_all add: canonicalize_markers)
  from s3(3) obtain c4 s4 where s4: "s3 = c4 # s4" "canonicalize c4 = CHR ''E''" "startsWith_ci s4 ''d:''"
    by (cases s3) (simp_all add: canonicalize_markers)
  from s4(3) obtain c5 s5 where s5: "s4 = c5 # s5" "canonicalize c5 = CHR ''D''" "startsWith_ci s5 '':''"
    by (cases s4) (simp_all add: canonicalize_markers)
  from s5(3) obtain c6 s6 where s6: "s5 = c6 # s6" "canonicalize c6 = CHR '':''"
    by (cases s5) (simp_all add: canonicalize_markers)
  show thesis
    using that[of c0 c1 c2 c3 c4 c5 c6 s6] s0 s1 s2 s3 s4 s5 s6 by simp
qed

text \<open>No occurrence begins inside another one.\<close>

lemma error_marker_apart:
  assumes "exec_at True errorRegex s = Some (n, cs)" and "0 < j" and "j < n"
  shows "\<not> error_marker (drop j s)"
proof (cases "startsWith_ci s ''Error:''")
  case True
  then have n: "n = 6" using assms(1) unfolding exec_at_errorRegex by simp
  from True obtain c0 c1 c2 c3 c4 c5 rest where s: "s = c0 # c1 # c2 # c3 # c4 # c5 # rest"
    and c: "canonicalize c1 = CHR ''R''" "canonicalize c2 = CHR ''R''" "canonicalize c3 = CHR ''O''"
           "canonicalize c4 = CHR ''R''" "canonicalize c5 = CHR '':''"
    by (rule Error_chars)
  from assms(2,3) n have "j = 1 \<or> j = 2 \<or> j = 3 \<or> j = 4 \<or> j = 5" by arith
  then show ?thesis
    using c by (auto simp: s dest!: error_marker_first)
next
  case False
  then have f: "startsWith_ci s ''failed:''" and n: "n = 7"
    using assms(1) unfolding exec_at_errorRegex by (simp_all split: if_splits)
  from f obtain c0 c1 c2 c3 c4 c5 c6 rest where s: "s = c0 # c1 # c2 # c3 # c4 # c5 # c6 # rest"
    and c: "canonicalize c1 = CHR ''A''" "canonicalize c2 = CHR ''I''" "canonicalize c3 = CHR ''L''"
           "canonicalize c4 = CHR ''E''" "canonicalize c5 = CHR ''D''" "canonicalize c6 = CHR '':''"
    by (rule failed_chars)
  have e: "\<not> error_marker (c4 # c5 # c6 # rest)"
    using c by (simp add: error_marker_def canonicalize_markers)
  from assms(2,3) n have "j = 1 \<or> j = 2 \<or> j = 3 \<or> j = 4 \<or> j = 5 \<or> j = 6" by arith
  then show ?thesis
  proof (elim disjE)
    assume "j = 4"
    then show ?thesis using e by (simp add: s)
  qed (use c in \<open>auto simp: s dest!: error_marker_first\<close>)
qed

lemma match_all_markers:
  "(\<forall>j<k. \<not> error_marker (drop j s)) \<Longrightarrow>
   map fst (match_all_from True errorRegex k i s) = markers_from i s"
proof (induction s arbitrary: k i)
  case Nil
  have "exec_at True errorRegex [] = None"
    unfolding exec_at_errorRegex by simp
  then show ?case by (cases k) simp_all
next
  case (Cons c s)
  show ?case
  proof (cases k)
    case 0
    show ?thesis
    proof (cases "exec_at True errorRegex (c # s)")
      case None
      then have "\<not> error_marker (c # s)" by (simp add: error_marker_exec)
      moreover have "map fst (match_all_from True errorRegex 0 (Suc i) s) = markers_from (Suc i) s"
        by (rule Cons.IH) simp
      ultimately show ?thesis using None 0 by simp
    next
      case (Some res)
      obtain n cs where res: "res = (n, cs)" by (cases res)
      have m: "error_marker (c # s)" using Some by (simp add: error_marker_exec)
      have "\<forall>j<n - 1. \<not> error_marker (drop j s)"
      proof (intro allI impI)
        fix j assume "j < n - 1"
        then have "0 < Suc j" and "Suc j < n" by simp_all
        with Some res have "\<not> error_marker (drop (Suc j) (c # s))"
          using error_marker_apart by blast
        then show "\<not> error_marker (drop j s)" by simp
      qed
      then have "map fst (match_all_from True errorRegex (n - 1) (Suc i) s) = markers_from (Suc i) s"
        by (rule Cons.IH)
      then show ?thesis using Some res m 0 by simp
    qed
  next
    case (Suc k')
    from Cons.prems Suc have "\<not> error_marker (drop 0 (c # s))" by blast
    then have n: "\<not> error_marker (c # s)" by simp
    have "\<forall>j<k'. \<not> error_marker (drop j s)"
    proof (intro allI impI)
      fix j assume "j < k'"
      then have "Suc j < k" using Suc by simp
      with Cons.prems have "\<not> error_marker (drop (Suc j) (c # s))" by blast
      then show "\<not> error_marker (drop j s)" by simp
    qed
    then have "map fst (match_all_from True errorRegex k' (Suc i) s) = markers_from (Suc i) s"
      by (rule Cons.IH)
    then show ?thesis using Suc n by simp
  qed
qed

lemma markers_from_filter:
  "markers_from i s = map (\<lambda>j. i + j) (filter (\<lambda>j. error_marker (drop j s)) [0..<length s])"
proof (induction s arbitrary: i)
  case Nil
  then show ?case by simp
next
  case (Cons c s)
  let ?P = "\<lambda>j. error_marker (drop j (c # s))"
  let ?Q = "\<lambda>j. error_marker (drop j s)"
  have u: "[0..<length (c # s)] = 0 # map Suc [0..<length s]"
    by (simp add: upt_conv_Cons map_Suc_upt del: upt_Suc)
  have m: "filter ?P (map Suc [0..<length s]) = map Suc (filter ?Q [0..<length s])"
    unfolding filter_map by (simp add: comp_def del: map_Suc_upt)
  have f: "filter ?P [0..<length (c # s)]
             = (if error_marker (c # s) then [0] else []) @ map Suc (filter ?Q [0..<length s])"
    unfolding u using m by (simp del: map_Suc_upt upt_Suc)
  have "map (\<lambda>j. i + j) (filter ?P [0..<length (c # s)])
          = (if error_marker (c # s) then [i] else []) @ map (\<lambda>j. Suc i + j) (filter ?Q [0..<length s])"
    unfolding f by (simp add: comp_def)
  then show ?case
    using Cons.IH[of "Suc i"] by simp
qed

text \<open>The matches of the error pattern begin at the occurrences, each of them, in order.\<close>

lemma matchAll_error_positions:
  "map fst (matchAll True errorRegex logContent) = error_positions logContent"
proof -
  have "map fst (match_all_from True errorRegex 0 0 logContent) = markers_from 0 logContent"
    by (rule match_all_markers) simp
  then show ?thesis
    by (simp add: matchAll_def error_positions_def markers_from_filter)
qed

text \<open>
  C8, as the specification states it: the message is exactly the text from the match to
  the next line break. On an error line that ends in a blank the message has lost the
  blank.
\<close>

theorem error_message_counterexample:
  "error_positions log_error_blank = [0]
   \<and> map message (log_errors clock0 0 log_error_blank) = [''Error: element not found'']
   \<and> up_to_line_break log_error_blank 0 = ''Error: element not found ''"
  by code_simp

text \<open>
  What the loop makes of a match on a last line without a line break: \<open>indexOf\<close> answers
  -1, \<open>substring\<close> swaps its arguments, and the message is the text before the match.
\<close>

lemma error_on_last_line:
  "error_positions log_error_last_line = [0]
   \<and> map message (log_errors clock0 0 log_error_last_line) = [[]]
   \<and> up_to_line_break log_error_last_line 0 = ''Error: element not found''"
  by code_simp

text \<open>
  C8, amended. The error extraction appends one record for each occurrence of
  \<open>Error:\<close> or \<open>failed:\<close>, in any case, in the order of the log, each with the scenario
  ``Unknown''; when a line break follows the occurrence, the message is the text from the
  occurrence up to that line break with the white space at its ends trimmed.
\<close>

theorem error_records_of_log:
  "length (log_errors clk t logContent) = length (error_positions logContent)
   \<and> (\<forall>k < length (error_positions logContent).
         scenario_of (log_errors clk t logContent ! k) = ''Unknown''
         \<and> (LF \<in> set (drop (error_positions logContent ! k) logContent) \<longrightarrow>
              message (log_errors clk t logContent ! k)
                = trim (up_to_line_break logContent (error_positions logContent ! k))))"
proof -
  let ?ms = "matchAll True errorRegex logContent"
  have l: "length ?ms = length (error_positions logContent)"
    using matchAll_error_positions[of logContent] by (metis length_map)
  have p: "fst (?ms ! k) = error_positions logContent ! k" if "k < length ?ms" for k
    using matchAll_error_positions[of logContent] that by (metis nth_map)
  show ?thesis
    using l p
    by (simp add: log_errors_def error_records_length error_records_nth errorLine_up_to_line_break)
qed

theorem error_records_of_log_witness:
  "(0::nat) < length (error_positions log_error_blank)
   \<and> LF \<in> set (drop (error_positions log_error_blank ! 0) log_error_blank)
   \<and> scenario_of (log_errors clock0 0 log_error_blank ! 0) = ''Unknown''
   \<and> message (log_errors clock0 0 log_error_blank ! 0) = ''Error: element not found''"
proof -
  have h1: "(0::nat) < length (error_positions log_error_blank)"
    by code_simp
  have h2: "LF \<in> set (drop (error_positions log_error_blank ! 0) log_error_blank)"
    by code_simp
  have h3: "trim (up_to_line_break log_error_blank (error_positions log_error_blank ! 0))
              = ''Error: element not found''"
    by code_simp
  from error_records_of_log[of clock0 0 log_error_blank] h1 h2 h3 show ?thesis
    by simp
qed

end
